theory Spec2Isabelle
  imports
    Main
    "HOL-Library.Word"
    "HOL-Library.Char_ord"
    "HOL-Library.List_Lexorder"
    "HOL-Library.Product_Lexorder"
    "HOL-Library.AList"
begin

unbundle bit_operations_syntax

section \<open>Basic types\<close>

text \<open>
  Go strings are byte strings; \<^typ>\<open>string\<close> is a list of 8-bit characters. The order on
  strings used below is the bytewise lexicographic one (a proper prefix is smaller), which
  is the order Redis uses for members of equal score and the order of Go's
  \<^verbatim>\<open>sort.Strings\<close>.

  A point in time is the number of nanoseconds since the Unix epoch; \<^verbatim>\<open>time.Duration\<close> is a
  signed 64-bit count of nanoseconds.
\<close>

type_synonym byte = "8 word"
type_synonym Time = int
type_synonym Duration = "64 word"

definition Second :: Duration where
  "Second = 1000000000"

definition Minute :: Duration where
  "Minute = 60 * Second"

definition Hour :: Duration where
  "Hour = 60 * Minute"

definition Unix :: "Time \<Rightarrow> int" where
  "Unix t = t div 1000000000"

datatype error =
    ErrAlreadyInQueue
  | ErrNotInQueue
  | ErrNoMatchFound
  | ErrInvalidHex
  | ErrLength
  | InvalidByteError char

subsection \<open>Decimal rendering of integers (\<^verbatim>\<open>strconv\<close>, as go-redis renders hash values)\<close>

function decimal :: "nat \<Rightarrow> string" where
  "decimal n = (if n < 10 then [char_of (48 + n)]
                else decimal (n div 10) @ [char_of (48 + n mod 10)])"
  by pat_completeness auto
termination
  by (relation "measure id") auto

definition Itoa :: "int \<Rightarrow> string" where
  "Itoa i = (if i < 0 then CHR ''-'' # decimal (nat (- i)) else decimal (nat i))"

subsection \<open>Hexadecimal (\<^verbatim>\<open>encoding/hex\<close>) and ObjectIDs\<close>

definition fromHexChar :: "char \<Rightarrow> byte option" where
  "fromHexChar c =
     (let n = (of_char c :: nat) in
      if 48 \<le> n \<and> n \<le> 57 then Some (word_of_nat (n - 48))
      else if 97 \<le> n \<and> n \<le> 102 then Some (word_of_nat (n - 97 + 10))
      else if 65 \<le> n \<and> n \<le> 70 then Some (word_of_nat (n - 65 + 10))
      else None)"

fun hexDecode :: "string \<Rightarrow> error + byte list" where
  "hexDecode [] = Inr []"
| "hexDecode [p] =
     (case fromHexChar p of None \<Rightarrow> Inl (InvalidByteError p) | Some a \<Rightarrow> Inl ErrLength)"
| "hexDecode (p # q # rest) =
     (case fromHexChar p of
        None \<Rightarrow> Inl (InvalidByteError p)
      | Some a \<Rightarrow>
          (case fromHexChar q of
             None \<Rightarrow> Inl (InvalidByteError q)
           | Some b \<Rightarrow>
               (case hexDecode rest of
                  Inl e \<Rightarrow> Inl e
                | Inr bs \<Rightarrow> Inr ((push_bit 4 a OR b) # bs))))"

definition hextable :: string where
  "hextable = ''0123456789abcdef''"

definition EncodeToString :: "byte list \<Rightarrow> string" where
  "EncodeToString bs =
     concat (map (\<lambda>b. [hextable ! unat (drop_bit 4 b), hextable ! unat (b AND 15)]) bs)"

type_synonym ObjectID = "byte list"

definition ObjectIDFromHex :: "string \<Rightarrow> error + ObjectID" where
  "ObjectIDFromHex s =
     (if length s \<noteq> 24 then Inl ErrInvalidHex else hexDecode s)"

section \<open>The shared coordination store\<close>

text \<open>
  The store is Redis, reached through \<^verbatim>\<open>database.RedisClient\<close>. Each command is a function
  on the contents of the store. A sorted set is the list of its (score, member) pairs in
  the order of \<^verbatim>\<open>ZRANGE\<close>: by score, then by member bytes. A hash is an association list
  from field to value, a set is a list without repetition. \<^verbatim>\<open>EXPIRE\<close> records the time to
  live of a key; the removal of a key whose time has run out is a step of the store itself
  (\<open>expireKey\<close> below), not of a command. Commands are taken to reach the store: the
  only failure of a command is the answer "no such member" (\<^verbatim>\<open>redis.Nil\<close>), which is
  \<open>None\<close>.
\<close>

record RedisClient =
  zsets :: "string \<Rightarrow> (int \<times> string) list"
  hashes :: "string \<Rightarrow> (string \<times> string) list"
  sets :: "string \<Rightarrow> string list"
  strings :: "string \<Rightarrow> string option"
  ttl :: "string \<Rightarrow> Duration option"

definition emptyRedis :: RedisClient where
  "emptyRedis = \<lparr>zsets = (\<lambda>k. []), hashes = (\<lambda>k. []), sets = (\<lambda>k. []),
                  strings = (\<lambda>k. None), ttl = (\<lambda>k. None)\<rparr>"

definition keyExists :: "RedisClient \<Rightarrow> string \<Rightarrow> bool" where
  "keyExists r key =
     (zsets r key \<noteq> [] \<or> hashes r key \<noteq> [] \<or> sets r key \<noteq> [] \<or> strings r key \<noteq> None)"

definition ZAdd :: "RedisClient \<Rightarrow> string \<Rightarrow> int \<Rightarrow> string \<Rightarrow> RedisClient" where
  "ZAdd r key score member =
     r\<lparr>zsets := (zsets r)(key :=
          insort (score, member) (filter (\<lambda>e. snd e \<noteq> member) (zsets r key)))\<rparr>"

definition ZRem :: "RedisClient \<Rightarrow> string \<Rightarrow> string \<Rightarrow> RedisClient" where
  "ZRem r key member =
     (let z = filter (\<lambda>e. snd e \<noteq> member) (zsets r key);
          r1 = r\<lparr>zsets := (zsets r)(key := z)\<rparr>
      in if keyExists r1 key then r1 else r1\<lparr>ttl := (ttl r1)(key := None)\<rparr>)"

definition ZScore :: "RedisClient \<Rightarrow> string \<Rightarrow> string \<Rightarrow> int option" where
  "ZScore r key member =
     map_option fst (find (\<lambda>e. snd e = member) (zsets r key))"

definition ZRange :: "RedisClient \<Rightarrow> string \<Rightarrow> string list" where
  \<comment> \<open>\<^verbatim>\<open>ZRANGE key 0 -1\<close>: every member, in order.\<close>
  "ZRange r key = map snd (zsets r key)"

fun indexOf :: "'a list \<Rightarrow> 'a \<Rightarrow> nat option" where
  "indexOf [] x = None"
| "indexOf (y # ys) x = (if y = x then Some 0 else map_option Suc (indexOf ys x))"

definition ZRank :: "RedisClient \<Rightarrow> string \<Rightarrow> string \<Rightarrow> nat option" where
  "ZRank r key member = indexOf (ZRange r key) member"

definition ZCard :: "RedisClient \<Rightarrow> string \<Rightarrow> nat" where
  "ZCard r key = length (zsets r key)"

definition HSet :: "RedisClient \<Rightarrow> string \<Rightarrow> (string \<times> string) list \<Rightarrow> RedisClient" where
  "HSet r key values =
     r\<lparr>hashes := (hashes r)(key :=
          foldl (\<lambda>h fv. AList.update (fst fv) (snd fv) h) (hashes r key) values)\<rparr>"

definition HGetAll :: "RedisClient \<Rightarrow> string \<Rightarrow> (string \<rightharpoonup> string)" where
  "HGetAll r key = map_of (hashes r key)"

definition SAdd :: "RedisClient \<Rightarrow> string \<Rightarrow> string \<Rightarrow> RedisClient" where
  "SAdd r key member = r\<lparr>sets := (sets r)(key := List.insert member (sets r key))\<rparr>"

definition Set :: "RedisClient \<Rightarrow> string \<Rightarrow> string \<Rightarrow> Duration \<Rightarrow> RedisClient" where
  "Set r key v expiration =
     r\<lparr>zsets := (zsets r)(key := []), hashes := (hashes r)(key := []),
       sets := (sets r)(key := []), strings := (strings r)(key := Some v),
       ttl := (ttl r)(key := (if expiration = 0 then None else Some expiration))\<rparr>"

definition Expire :: "RedisClient \<Rightarrow> string \<Rightarrow> Duration \<Rightarrow> RedisClient" where
  "Expire r key expiration =
     (if keyExists r key then r\<lparr>ttl := (ttl r)(key := Some expiration)\<rparr> else r)"

definition Del :: "RedisClient \<Rightarrow> string \<Rightarrow> RedisClient" where
  "Del r key =
     r\<lparr>zsets := (zsets r)(key := []), hashes := (hashes r)(key := []),
       sets := (sets r)(key := []), strings := (strings r)(key := None),
       ttl := (ttl r)(key := None)\<rparr>"

definition expireKey :: "RedisClient \<Rightarrow> string \<Rightarrow> RedisClient" where
  \<comment> \<open>The store drops a key whose time to live has run out.\<close>
  "expireKey r key = (if ttl r key = None then r else Del r key)"

section \<open>The rooms collection\<close>

record RoomMetadata =
  Topic :: string
  Difficulty :: string
  Type :: string

record Room =
  ID :: ObjectID
  RoomID :: string
  Status :: string
  Participants :: "ObjectID list"
  CreatedAt :: Time
  Metadata :: RoomMetadata

section \<open>Matchmaking queue (\<^verbatim>\<open>services.MatchmakingService\<close>)\<close>

text \<open>
  What a call reads from outside the program: the clock, the 16 bytes of
  \<^verbatim>\<open>crypto/rand\<close> behind \<^verbatim>\<open>generateRoomID\<close>, and the identifier the driver gives a new
  document.
\<close>

record env =
  now :: Time
  randBytes :: "byte list"
  newObjectID :: ObjectID

record MatchmakingService =
  redis :: RedisClient
  roomRepo :: "Room list"

definition queueKey :: string where
  "queueKey = ''matchmaking:queue''"

definition metaKey :: "string \<Rightarrow> string" where
  "metaKey userID = ''matchmaking:user:'' @ userID"

definition IsInQueue :: "MatchmakingService \<Rightarrow> string \<Rightarrow> bool" where
  "IsInQueue s userID =
     (case ZScore (redis s) queueKey userID of
        None \<Rightarrow> False
      | Some score \<Rightarrow> score > 0)"

definition JoinQueue ::
  "env \<Rightarrow> MatchmakingService \<Rightarrow> string \<Rightarrow> int \<Rightarrow> error option \<times> MatchmakingService" where
  "JoinQueue e s userID skillLevel =
     (if IsInQueue s userID then (Some ErrAlreadyInQueue, s)
      else
        let score = Unix (now e);
            r1 = ZAdd (redis s) queueKey score userID;
            r2 = HSet r1 (metaKey userID)
                   [(''skillLevel'', Itoa skillLevel), (''joinedAt'', Itoa (Unix (now e)))];
            r3 = Expire r2 (metaKey userID) (30 * Minute)
        in (None, s\<lparr>redis := r3\<rparr>))"

definition LeaveQueue :: "MatchmakingService \<Rightarrow> string \<Rightarrow> error option \<times> MatchmakingService" where
  "LeaveQueue s userID =
     (let r1 = ZRem (redis s) queueKey userID;
          r2 = Del r1 (metaKey userID)
      in (None, s\<lparr>redis := r2\<rparr>))"

definition GetQueueStatus :: "MatchmakingService \<Rightarrow> string \<Rightarrow> error + (int \<times> Duration)" where
  "GetQueueStatus s userID =
     (case ZRank (redis s) queueKey userID of
        None \<Rightarrow> Inl ErrNotInQueue
      | Some rank \<Rightarrow>
          let position = int rank + 1;
              estimatedWait = word_of_int (position div 2) * 30 * Second
          in Inr (position, estimatedWait))"

definition generateRoomID :: "env \<Rightarrow> string" where
  "generateRoomID e = EncodeToString (randBytes e)"

definition roomStateKey :: "string \<Rightarrow> string" where
  "roomStateKey roomID = ''room:'' @ roomID"

definition Create :: "env \<Rightarrow> MatchmakingService \<Rightarrow> Room \<Rightarrow> MatchmakingService" where
  \<comment> \<open>\<^verbatim>\<open>RoomRepository.Create\<close>: stamps the document and inserts it.\<close>
  "Create e s room =
     s\<lparr>roomRepo := roomRepo s @
          [room\<lparr>ID := newObjectID e, CreatedAt := now e, Status := ''waiting''\<rparr>]\<rparr>"

definition CreateRoomForMatch ::
  "env \<Rightarrow> MatchmakingService \<Rightarrow> string \<Rightarrow> string \<Rightarrow> (error + string) \<times> MatchmakingService" where
  "CreateRoomForMatch e s user1ID user2ID =
     (let roomID = generateRoomID e in
      case ObjectIDFromHex user1ID of
        Inl err \<Rightarrow> (Inl err, s)
      | Inr userObjID1 \<Rightarrow>
          (case ObjectIDFromHex user2ID of
             Inl err \<Rightarrow> (Inl err, s)
           | Inr userObjID2 \<Rightarrow>
               let room = \<lparr>ID = [], RoomID = roomID, Status = ''waiting'',
                           Participants = [userObjID1, userObjID2], CreatedAt = 0,
                           Metadata = \<lparr>Topic = ''Technical Interview'',
                                       Difficulty = ''medium'', Type = ''technical''\<rparr>\<rparr>;
                   s1 = Create e s room;
                   r1 = HSet (redis s1) (roomStateKey roomID)
                          [(''status'', ''waiting''), (''user1'', user1ID),
                           (''user2'', user2ID), (''createdAt'', Itoa (Unix (now e)))];
                   r2 = Expire r1 (roomStateKey roomID) (2 * Hour)
               in (Inr roomID, s1\<lparr>redis := r2\<rparr>)))"

text \<open>
  The loop of \<^verbatim>\<open>FindMatch\<close> over the members of the queue, with the two variables it
  assigns; the second equation's middle branch is the \<^verbatim>\<open>break\<close>.
\<close>

fun scanQueue :: "string \<Rightarrow> string list \<Rightarrow> string \<Rightarrow> string \<Rightarrow> string \<times> string" where
  "scanQueue userID [] user1 user2 = (user1, user2)"
| "scanQueue userID (member # rest) user1 user2 =
     (if member = userID then scanQueue userID rest member user2
      else if user1 \<noteq> '''' then (user1, member)
      else scanQueue userID rest member user2)"

definition selectPair :: "string \<Rightarrow> string list \<Rightarrow> (string \<times> string) option" where
  \<comment> \<open>The part of \<^verbatim>\<open>FindMatch\<close> between reading the queue and creating the room.\<close>
  "selectPair userID members =
     (if length members < 2 then None
      else
        let (user1, user2) = scanQueue userID members '''' '''' in
        if user1 = '''' \<or> user2 = '''' then None else Some (user1, user2))"

definition FindMatch ::
  "env \<Rightarrow> MatchmakingService \<Rightarrow> string \<Rightarrow> (error + (string \<times> string)) \<times> MatchmakingService" where
  "FindMatch e s userID =
     (let members = ZRange (redis s) queueKey in
      case selectPair userID members of
        None \<Rightarrow> (Inl ErrNoMatchFound, s)
      | Some (user1, user2) \<Rightarrow>
          (case CreateRoomForMatch e s user1 user2 of
             (Inl err, s1) \<Rightarrow> (Inl err, s1)
           | (Inr roomID, s1) \<Rightarrow>
               let s2 = snd (LeaveQueue s1 user1);
                   s3 = snd (LeaveQueue s2 user2)
               in (Inr (roomID, user2), s3)))"

definition GetQueueSize :: "MatchmakingService \<Rightarrow> nat" where
  "GetQueueSize s = ZCard (redis s) queueKey"

subsection \<open>Queue contents, operation sequences and sample states\<close>

text \<open>
  The Queue Entries are the pairs of the sorted set \<^verbatim>\<open>matchmaking:queue\<close>. A sorted set
  is well formed when it is ordered and holds each member once.
\<close>

definition zsetOK :: "(int \<times> string) list \<Rightarrow> bool" where
  "zsetOK z = (sorted z \<and> distinct (map snd z))"

definition queueEntries :: "MatchmakingService \<Rightarrow> (int \<times> string) list" where
  "queueEntries s = zsets (redis s) queueKey"

definition initial :: MatchmakingService where
  "initial = \<lparr>redis = emptyRedis, roomRepo = []\<rparr>"

text \<open>
  A sequence of queue operations, each with what it reads from outside; the initial state
  has an empty store and no rooms.
\<close>

datatype queueOp = Join string int | Leave string | Find string

fun applyOp :: "env \<Rightarrow> queueOp \<Rightarrow> MatchmakingService \<Rightarrow> MatchmakingService" where
  "applyOp e (Join userID skillLevel) s = snd (JoinQueue e s userID skillLevel)"
| "applyOp e (Leave userID) s = snd (LeaveQueue s userID)"
| "applyOp e (Find userID) s = snd (FindMatch e s userID)"

fun runOps :: "(env \<times> queueOp) list \<Rightarrow> MatchmakingService \<Rightarrow> MatchmakingService" where
  "runOps [] s = s"
| "runOps ((e, op) # rest) s = runOps rest (applyOp e op s)"

text \<open>
  The pairing rule as the specification words it, to be compared with \<open>selectPair\<close>:
  fewer than two queued users give no pair; the requesting user, when it is among the
  first two users scanned, is paired with the next queued user after it that is not itself;
  otherwise the first two users found are paired.
\<close>

definition specPair :: "string \<Rightarrow> string list \<Rightarrow> (string \<times> string) option" where
  "specPair userID members =
     (if length members < 2 then None
      else if userID \<in> set (take 2 members) then
        (case dropWhile (\<lambda>m. m \<noteq> userID) members of
           [] \<Rightarrow> None
         | _ # after \<Rightarrow>
             (case find (\<lambda>m. m \<noteq> userID) after of
                None \<Rightarrow> None
              | Some partner \<Rightarrow> Some (userID, partner)))
      else Some (members ! 0, members ! 1))"


text \<open>Sample identifiers, clock readings and queue states used to instantiate the theorems.\<close>

definition userA :: string where "userA = ''65a1b2c3d4e5f60718293a01''"
definition userB :: string where "userB = ''65a1b2c3d4e5f60718293a02''"
definition userC :: string where "userC = ''65a1b2c3d4e5f60718293a03''"

definition envAt :: "int \<Rightarrow> env" where
  "envAt t = \<lparr>now = t * 1000000000,
              randBytes = [0x3f, 0x91, 0x0a, 0xc4, 0x5e, 0x77, 0x12, 0xb8,
                           0x6d, 0x20, 0xe9, 0x04, 0xaa, 0x51, 0xf3, 0x8c],
              newObjectID = [0x65, 0xa1, 0xb2, 0xc3, 0xd4, 0xe5, 0xf6, 0x07, 0x18, 0x29, 0x3a, 0xff]\<rparr>"

definition twoQueued :: MatchmakingService where
  "twoQueued = runOps [(envAt 1700000000, Join userA 1000), (envAt 1700000001, Join userB 1200)]
                 initial"

definition threeQueued :: MatchmakingService where
  "threeQueued = runOps [(envAt 1700000002, Join userC 1100)] twoQueued"




section \<open>The connection hub and the connections (package \<^verbatim>\<open>websocket\<close>)\<close>

text \<open>
  A \<^verbatim>\<open>*Client\<close> is an address into a heap of \<open>Client\<close> objects, so that two connections of
  one user are two different values and the hub's comparison \<^verbatim>\<open>currentClient == client\<close> is
  a comparison of addresses. A payload is the JSON object that \<^verbatim>\<open>json.Marshal\<close> encodes, as
  the list of its fields; values the program only passes on are opaque.

  A buffered channel is the list of the values waiting in it. The non-blocking send
  \<^verbatim>\<open>select { case ch <- v: default: }\<close> appends when there is room and drops otherwise; on a
  closed channel it panics, which is recorded in \<open>panicked\<close>, after which nothing more is
  sent. The tasks that drain the channels are steps of their own (\<open>broadcastWorker\<close>).
\<close>

datatype json = JNull | JString string | JRaw string

type_synonym payload = "(string \<times> json) list"

type_synonym addr = nat

definition broadcastBufferSize :: nat where
  "broadcastBufferSize = 1024"

definition clientBufferSize :: nat where
  "clientBufferSize = 256"

definition roomCacheTTL :: Duration where
  "roomCacheTTL = 30 * Second"

definition EventAcceptMatch :: string where "EventAcceptMatch = ''accept_match''"
definition EventPartnerAccepted :: string where "EventPartnerAccepted = ''partner_accepted''"
definition EventBothReady :: string where "EventBothReady = ''both_ready''"
definition EventJoinQueue :: string where "EventJoinQueue = ''join_queue''"
definition EventLeaveQueue :: string where "EventLeaveQueue = ''leave_queue''"
definition EventWebRTCOffer :: string where "EventWebRTCOffer = ''webrtc_offer''"
definition EventWebRTCAnswer :: string where "EventWebRTCAnswer = ''webrtc_answer''"
definition EventICECandidate :: string where "EventICECandidate = ''ice_candidate''"
definition EventCallEnd :: string where "EventCallEnd = ''call_ended''"
definition EventMediaStateChange :: string where "EventMediaStateChange = ''media_state_changed''"
definition EventMessage :: string where "EventMessage = ''message''"

record Event =
  Type :: string
  From :: string
  To :: string
  RoomID :: string
  Data :: "(string \<times> json) list"
  SDP :: json
  Candidate :: json

record Message =
  Type :: string
  UserID :: string
  RoomID :: string
  Data :: payload
  Broadcast :: bool
  Exclude :: string

record Client =
  UserID :: string
  RoomID :: string
  send :: "payload list"
  sendClosed :: bool
  connClosed :: bool

record roomCache =
  participants :: "string \<rightharpoonup> string"
  cachedAt :: Time

record Hub =
  clients :: "(string \<times> addr) list"
  rooms :: "(string \<times> roomCache) list"
  broadcast :: "Message list"
  redis :: RedisClient
  heap :: "addr \<Rightarrow> Client"
  panicked :: bool

subsection \<open>Sending\<close>

definition trySend :: "addr \<Rightarrow> payload \<Rightarrow> Hub \<Rightarrow> Hub" where
  \<comment> \<open>\<^verbatim>\<open>select { case client.send <- payload: default: }\<close>\<close>
  "trySend client p h =
     (let cl = heap h client in
      if panicked h then h
      else if sendClosed cl then h\<lparr>panicked := True\<rparr>
      else if length (send cl) < clientBufferSize
        then h\<lparr>heap := (heap h)(client := cl\<lparr>send := send cl @ [p]\<rparr>)\<rparr>
      else h)"

definition Send :: "addr \<Rightarrow> payload \<Rightarrow> Hub \<Rightarrow> Hub" where
  \<comment> \<open>\<^verbatim>\<open>Client.Send\<close>\<close>
  "Send c data h = trySend c data h"

definition sendToClient :: "addr \<Rightarrow> payload \<Rightarrow> Hub \<Rightarrow> Hub" where
  "sendToClient client p h = trySend client p h"

definition broadcastToAllClients :: "payload \<Rightarrow> string \<Rightarrow> Hub \<Rightarrow> Hub" where
  "broadcastToAllClients p exclude h =
     fold (\<lambda>entry h1. if fst entry = exclude then h1 else sendToClient (snd entry) p h1)
       (clients h) h"

definition sendToUser :: "string \<Rightarrow> payload \<Rightarrow> Hub \<Rightarrow> Hub" where
  "sendToUser userID p h =
     (case map_of (clients h) userID of
        Some client \<Rightarrow> sendToClient client p h
      | None \<Rightarrow> h)"

definition getRoomParticipants :: "Time \<Rightarrow> string \<Rightarrow> Hub \<Rightarrow> (string \<rightharpoonup> string) \<times> Hub" where
  "getRoomParticipants t roomID h =
     (let fetch =
            (let ps = HGetAll (redis h) (''room:'' @ roomID)
             in (ps, h\<lparr>rooms := AList.update roomID \<lparr>participants = ps, cachedAt = t\<rparr>
                                    (rooms h)\<rparr>))
      in case map_of (rooms h) roomID of
           Some cached \<Rightarrow>
             if t - cachedAt cached < sint roomCacheTTL then (participants cached, h) else fetch
         | None \<Rightarrow> fetch)"

definition invalidateRoomCache :: "string \<Rightarrow> Hub \<Rightarrow> Hub" where
  "invalidateRoomCache roomID h = h\<lparr>rooms := AList.delete roomID (rooms h)\<rparr>"

text \<open>
  The loop of \<^verbatim>\<open>broadcastToRoomInternal\<close> ranges over a Go map and acts only on the keys
  \<^verbatim>\<open>user1\<close> and \<^verbatim>\<open>user2\<close>; the model visits these two keys, in this order.
\<close>

definition roomSlot :: "(string \<rightharpoonup> string) \<Rightarrow> payload \<Rightarrow> string \<Rightarrow> string \<Rightarrow> Hub \<Rightarrow> Hub" where
  "roomSlot ps p exclude key h =
     (case ps key of
        None \<Rightarrow> h
      | Some userID \<Rightarrow>
          if userID \<noteq> exclude then
            (case map_of (clients h) userID of
               Some client \<Rightarrow> sendToClient client p h
             | None \<Rightarrow> h)
          else h)"

definition broadcastToRoomInternal :: "Time \<Rightarrow> string \<Rightarrow> payload \<Rightarrow> string \<Rightarrow> Hub \<Rightarrow> Hub" where
  "broadcastToRoomInternal t roomID p exclude h =
     (let (ps, h1) = getRoomParticipants t roomID h
      in fold (roomSlot ps p exclude) [''user1'', ''user2''] h1)"

definition handleBroadcast :: "Time \<Rightarrow> Message \<Rightarrow> Hub \<Rightarrow> Hub" where
  "handleBroadcast t message h =
     (if Broadcast message then broadcastToAllClients (Message.Data message) (Exclude message) h
      else if Message.UserID message \<noteq> '''' then
        sendToUser (Message.UserID message) (Message.Data message) h
      else if Message.RoomID message \<noteq> '''' then
        broadcastToRoomInternal t (Message.RoomID message) (Message.Data message)
          (Exclude message) h
      else h)"

definition offer :: "Message \<Rightarrow> Hub \<Rightarrow> Hub" where
  \<comment> \<open>\<^verbatim>\<open>select { case h.broadcast <- m: default: }\<close>\<close>
  "offer m h =
     (if length (broadcast h) < broadcastBufferSize then h\<lparr>broadcast := broadcast h @ [m]\<rparr>
      else h)"

definition broadcastWorker :: "Time \<Rightarrow> Hub \<Rightarrow> Hub" where
  \<comment> \<open>One turn of a worker: take the next message of \<^verbatim>\<open>h.broadcast\<close> and handle it.\<close>
  "broadcastWorker t h =
     (case broadcast h of
        [] \<Rightarrow> h
      | m # ms \<Rightarrow> handleBroadcast t m (h\<lparr>broadcast := ms\<rparr>))"

text \<open>
  The workers take the messages off \<^verbatim>\<open>h.broadcast\<close> in the order of the channel; a run of
  worker turns is given by the clock reading of each turn, and each message is handled to
  its end before the next one is taken.
\<close>

fun workerTurns :: "Time list \<Rightarrow> Hub \<Rightarrow> Hub" where
  "workerTurns [] h = h"
| "workerTurns (t # ts) h = workerTurns ts (broadcastWorker t h)"

definition BroadcastToRoomExcept :: "Time \<Rightarrow> string \<Rightarrow> string \<Rightarrow> payload \<Rightarrow> Hub \<Rightarrow> Hub" where
  "BroadcastToRoomExcept t roomID excludeUserID data h =
     broadcastToRoomInternal t roomID data excludeUserID h"

definition BroadcastToAll :: "payload \<Rightarrow> Hub \<Rightarrow> Hub" where
  "BroadcastToAll data h =
     offer \<lparr>Message.Type = '''', Message.UserID = '''', Message.RoomID = '''',
            Message.Data = data, Broadcast = True, Exclude = ''''\<rparr> h"

definition allExcept :: "string \<Rightarrow> payload \<Rightarrow> Message" where
  \<comment> \<open>\<^verbatim>\<open>&Message{Data: data, Broadcast: true, Exclude: excludeUserID}\<close>\<close>
  "allExcept excludeUserID data =
     \<lparr>Message.Type = '''', Message.UserID = '''', Message.RoomID = '''',
      Message.Data = data, Broadcast = True, Exclude = excludeUserID\<rparr>"

definition BroadcastToAllExcept :: "string \<Rightarrow> payload \<Rightarrow> Hub \<Rightarrow> Hub" where
  "BroadcastToAllExcept excludeUserID data h = offer (allExcept excludeUserID data) h"

definition toUser :: "string \<Rightarrow> payload \<Rightarrow> Message" where
  \<comment> \<open>\<^verbatim>\<open>&Message{UserID: userID, Data: data}\<close>\<close>
  "toUser userID data =
     \<lparr>Message.Type = '''', Message.UserID = userID, Message.RoomID = '''',
      Message.Data = data, Broadcast = False, Exclude = ''''\<rparr>"

definition BroadcastToUser :: "string \<Rightarrow> payload \<Rightarrow> Hub \<Rightarrow> Hub" where
  "BroadcastToUser userID data h = offer (toUser userID data) h"

definition BroadcastToRoom :: "string \<Rightarrow> payload \<Rightarrow> Hub \<Rightarrow> Hub" where
  "BroadcastToRoom roomID data h =
     offer \<lparr>Message.Type = '''', Message.UserID = '''', Message.RoomID = roomID,
            Message.Data = data, Broadcast = False, Exclude = ''''\<rparr> h"

subsection \<open>Registering and unregistering\<close>

definition onlineKey :: "string \<Rightarrow> string" where
  "onlineKey userID = ''user:'' @ userID @ '':online''"

definition registerClient :: "addr \<Rightarrow> Hub \<Rightarrow> Hub" where
  "registerClient client h =
     (let userID = Client.UserID (heap h client);
          h1 = (case map_of (clients h) userID of
                  Some existingClient \<Rightarrow>
                    h\<lparr>heap := (heap h)(existingClient :=
                         (heap h existingClient)\<lparr>connClosed := True\<rparr>)\<rparr>
                | None \<Rightarrow> h);
          h2 = h1\<lparr>clients := AList.update userID client (clients h1)\<rparr>;
          h3 = h2\<lparr>redis := Set (redis h2) (onlineKey userID) ''true'' (30 * Minute)\<rparr>
      in Send client [(''message'', JString ''Connected to RANKEDterview''),
                      (''type'', JString ''connected'')] h3)"

definition closeSend :: "addr \<Rightarrow> Hub \<Rightarrow> Hub" where
  \<comment> \<open>\<^verbatim>\<open>select { case <-client.send: default: close(client.send) }\<close>\<close>
  "closeSend client h =
     (let cl = heap h client in
      if send cl \<noteq> [] then h\<lparr>heap := (heap h)(client := cl\<lparr>send := tl (send cl)\<rparr>)\<rparr>
      else if sendClosed cl then h
      else h\<lparr>heap := (heap h)(client := cl\<lparr>sendClosed := True\<rparr>)\<rparr>)"

definition unregisterClient :: "Time \<Rightarrow> addr \<Rightarrow> Hub \<Rightarrow> Hub" where
  "unregisterClient t client h =
     (let userID = Client.UserID (heap h client) in
      if map_of (clients h) userID = Some client then
        let h1 = h\<lparr>clients := AList.delete userID (clients h)\<rparr>;
            h2 = closeSend client h1;
            roomID = Client.RoomID (heap h2 client);
            h3 = (if roomID \<noteq> '''' then
                    BroadcastToRoomExcept t roomID userID
                      [(''from'', JString userID), (''roomId'', JString roomID),
                       (''type'', JString ''partner_disconnected'')] h2
                  else h2)
        in h3\<lparr>redis := Del (redis h3) (onlineKey userID)\<rparr>
      else h)"

subsection \<open>Handling the events of a connection\<close>

text \<open>
  \<^verbatim>\<open>SMEMBERS\<close> returns the members of a set in an order of the store's choosing; the handlers
  take that choice as the function \<open>order\<close>, which permutes the list of members.
\<close>

definition SMembers :: "(string list \<Rightarrow> string list) \<Rightarrow> RedisClient \<Rightarrow> string \<Rightarrow> string list" where
  "SMembers order r key = order (sets r key)"

fun assignRoles :: "nat \<Rightarrow> string list \<Rightarrow> (string \<times> string) list" where
  \<comment> \<open>\<^verbatim>\<open>for i, userID := range acceptedUsers\<close>: index 1 is the callee, every other the caller\<close>
  "assignRoles i [] = []"
| "assignRoles i (userID # rest) =
     (userID, if i = 1 then ''callee'' else ''caller'') # assignRoles (Suc i) rest"

definition bothReady :: "string \<Rightarrow> string \<Rightarrow> payload" where
  "bothReady roomID role =
     [(''role'', JString role), (''roomId'', JString roomID), (''type'', JString EventBothReady)]"

definition partnerAccepted :: "string \<Rightarrow> payload" where
  "partnerAccepted roomID = [(''roomId'', JString roomID), (''type'', JString EventPartnerAccepted)]"

definition waitingForPartner :: payload where
  "waitingForPartner =
     [(''message'', JString ''Waiting for partner to accept...''),
      (''type'', JString EventPartnerAccepted)]"

definition notifyOthers :: "(string \<rightharpoonup> string) \<Rightarrow> string \<Rightarrow> string \<Rightarrow> Hub \<Rightarrow> Hub" where
  \<comment> \<open>the loop over the room's participants, on the keys \<^verbatim>\<open>user1\<close> and \<^verbatim>\<open>user2\<close>\<close>
  "notifyOthers ps self roomID h =
     fold (\<lambda>key h1. case ps key of
                      None \<Rightarrow> h1
                    | Some userID \<Rightarrow>
                        if userID \<noteq> self then BroadcastToUser userID (partnerAccepted roomID) h1
                        else h1)
       [''user1'', ''user2''] h"

definition notifyRoles :: "string \<Rightarrow> string list \<Rightarrow> Hub \<Rightarrow> Hub" where
  "notifyRoles roomID acceptedUsers h =
     fold (\<lambda>ur h1. BroadcastToUser (fst ur) (bothReady roomID (snd ur)) h1)
       (assignRoles 0 acceptedUsers) h"

text \<open>\<^verbatim>\<open>handleAcceptMatch\<close> of \<^verbatim>\<open>internal/websocket/client.go\<close>: roles in the order of arrival.\<close>

definition acceptKey :: "string \<Rightarrow> string" where
  "acceptKey roomID = ''match:'' @ roomID @ '':accepted''"

definition handleAcceptMatch ::
  "(string list \<Rightarrow> string list) \<Rightarrow> addr \<Rightarrow> Event \<Rightarrow> Hub \<Rightarrow> Hub" where
  "handleAcceptMatch order c msg h =
     (let roomID = Event.RoomID msg; self = Client.UserID (heap h c) in
      if roomID = '''' then h
      else
        let r1 = SAdd (redis h) (acceptKey roomID) self;
            r2 = Expire r1 (acceptKey roomID) (2 * Minute);
            h1 = h\<lparr>redis := r2\<rparr>;
            acceptedUsers = SMembers order r2 (acceptKey roomID);
            h2 = (if length acceptedUsers = 1 then Send c waitingForPartner h1 else h1)
        in if length acceptedUsers \<ge> 2 then
             let ps = HGetAll (redis h2) (''room:'' @ roomID);
                 h3 = notifyRoles roomID acceptedUsers h2;
                 h4 = notifyOthers ps self roomID h3
             in h4\<lparr>redis := Del (redis h4) (acceptKey roomID)\<rparr>
           else h2)"

text \<open>
  \<^verbatim>\<open>handleAcceptMatch\<close> of the second copy of the connection code (\<^verbatim>\<open>unnamed/part_003\<close>, the
  one whose \<^verbatim>\<open>NewClient\<close> the upgrade handler calls): roles by sorted identifier.
\<close>

definition acceptKey_sorted :: "string \<Rightarrow> string" where
  "acceptKey_sorted roomID = ''room:'' @ roomID @ '':accepted''"

definition handleAcceptMatch_sorted ::
  "(string list \<Rightarrow> string list) \<Rightarrow> addr \<Rightarrow> Event \<Rightarrow> Hub \<Rightarrow> Hub" where
  "handleAcceptMatch_sorted order c msg h =
     (let roomID = Event.RoomID msg; self = Client.UserID (heap h c) in
      if roomID = '''' then h
      else
        let r1 = SAdd (redis h) (acceptKey_sorted roomID) self;
            r2 = Expire r1 (acceptKey_sorted roomID) (5 * Minute);
            h1 = h\<lparr>redis := r2\<rparr>;
            acceptedUsers = SMembers order r2 (acceptKey_sorted roomID)
        in if length acceptedUsers = 1 then
             notifyOthers (HGetAll (redis h1) (''room:'' @ roomID)) self roomID h1
           else if length acceptedUsers \<ge> 2 then
             let h2 = notifyRoles roomID (sort acceptedUsers) h1
             in h2\<lparr>redis := Del (redis h2) (acceptKey_sorted roomID)\<rparr>
           else h1)"

definition webrtcPayload :: "string \<Rightarrow> Event \<Rightarrow> payload" where
  "webrtcPayload self msg =
     [(''candidate'', Candidate msg), (''from'', JString self), (''roomId'', JString (To msg)),
      (''sdp'', SDP msg), (''type'', JString (Event.Type msg))]"

definition latchRoom :: "addr \<Rightarrow> string \<Rightarrow> Hub \<Rightarrow> Hub" where
  \<comment> \<open>\<^verbatim>\<open>if c.RoomID == "" { c.RoomID = roomID }\<close>\<close>
  "latchRoom c roomID h =
     (if Client.RoomID (heap h c) = '''' then
        h\<lparr>heap := (heap h)(c := (heap h c)\<lparr>Client.RoomID := roomID\<rparr>)\<rparr>
      else h)"

definition relayWebRTC :: "Time \<Rightarrow> addr \<Rightarrow> Event \<Rightarrow> Hub \<Rightarrow> Hub" where
  "relayWebRTC t c msg h =
     (let roomID = To msg; self = Client.UserID (heap h c); p = webrtcPayload self msg
      in if roomID = '''' then BroadcastToAllExcept self p h
         else
           let h1 = latchRoom c roomID h;
               h2 = BroadcastToRoomExcept t roomID self p h1
           in BroadcastToAllExcept self p h2)"


subsection \<open>Well-formed registries, targets of a delivery, sample states\<close>

text \<open>
  A registry is well formed when each user has one entry, and each entry leads to a
  connection of that user whose outbound channel is open. \<open>registerClient\<close> keeps it so
  for a connection whose channel is open (lemma \<open>registryOK_registerClient\<close>).
\<close>

definition registryOK :: "Hub \<Rightarrow> bool" where
  "registryOK h =
     (distinct (map fst (clients h)) \<and>
      list_all (\<lambda>entry. Client.UserID (heap h (snd entry)) = fst entry \<and>
                         \<not> sendClosed (heap h (snd entry))) (clients h))"

text \<open>
  The connections a room delivery sends to, one per participant slot: the connection
  registered for the user in the slot, when that user is not the excluded one. And the
  connections a process-wide delivery sends to.
\<close>

definition slotTarget :: "(string \<rightharpoonup> string) \<Rightarrow> (string \<times> addr) list \<Rightarrow> string \<Rightarrow> string \<Rightarrow> addr list" where
  "slotTarget ps cs exclude key =
     (case ps key of
        None \<Rightarrow> []
      | Some userID \<Rightarrow>
          if userID \<noteq> exclude then (case map_of cs userID of Some client \<Rightarrow> [client] | None \<Rightarrow> [])
          else [])"

definition roomTargets :: "(string \<rightharpoonup> string) \<Rightarrow> (string \<times> addr) list \<Rightarrow> string \<Rightarrow> addr list" where
  "roomTargets ps cs exclude = slotTarget ps cs exclude ''user1'' @ slotTarget ps cs exclude ''user2''"

definition allTargets :: "(string \<times> addr) list \<Rightarrow> string \<Rightarrow> addr list" where
  "allTargets cs exclude = map snd (filter (\<lambda>entry. fst entry \<noteq> exclude) cs)"

definition NewClient :: "string \<Rightarrow> Client" where
  "NewClient userID =
     \<lparr>Client.UserID = userID, Client.RoomID = '''', send = [], sendClosed = False,
      connClosed = False\<rparr>"

definition NewHub :: "RedisClient \<Rightarrow> (addr \<Rightarrow> Client) \<Rightarrow> Hub" where
  "NewHub r objects =
     \<lparr>clients = [], rooms = [], broadcast = [], Hub.redis = r, heap = objects, panicked = False\<rparr>"


subsection \<open>Sequences of accept events\<close>

text \<open>
  The two copies of \<^verbatim>\<open>handleAcceptMatch\<close> side by side, and the events that change an
  Acceptance Set: a connection sends \<^verbatim>\<open>accept_match\<close> for a room, or the store drops a key
  whose time to live has run out.
\<close>

datatype variant = ArrivalOrder | SortedOrder


definition handleAccept ::
  "variant \<Rightarrow> (string list \<Rightarrow> string list) \<Rightarrow> addr \<Rightarrow> Event \<Rightarrow> Hub \<Rightarrow> Hub" where
  "handleAccept v order c msg h =
     (case v of
        ArrivalOrder \<Rightarrow> handleAcceptMatch order c msg h
      | SortedOrder \<Rightarrow> handleAcceptMatch_sorted order c msg h)"

definition acceptEvent :: "string \<Rightarrow> Event" where
  "acceptEvent roomID =
     \<lparr>Event.Type = EventAcceptMatch, From = '''', To = '''', Event.RoomID = roomID,
      Event.Data = [], SDP = JNull, Candidate = JNull\<rparr>"

datatype acceptStep = Accept addr string | Expired string

fun applyAccept ::
  "variant \<Rightarrow> (string list \<Rightarrow> string list) \<Rightarrow> acceptStep \<Rightarrow> Hub \<Rightarrow> Hub" where
  "applyAccept v order (Accept c roomID) h = handleAccept v order c (acceptEvent roomID) h"
| "applyAccept v order (Expired key) h = h\<lparr>Hub.redis := expireKey (Hub.redis h) key\<rparr>"

fun runAccepts ::
  "variant \<Rightarrow> (string list \<Rightarrow> string list) \<Rightarrow> acceptStep list \<Rightarrow> Hub \<Rightarrow> Hub" where
  "runAccepts v order [] h = h"
| "runAccepts v order (step # rest) h = runAccepts v order rest (applyAccept v order step h)"


definition otherParticipants :: "(string \<rightharpoonup> string) \<Rightarrow> string \<Rightarrow> string list" where
  \<comment> \<open>the users in the slots \<^verbatim>\<open>user1\<close> and \<^verbatim>\<open>user2\<close> of a room, except \<open>self\<close>\<close>
  "otherParticipants ps self =
     concat (map (\<lambda>key. case ps key of
                          None \<Rightarrow> []
                        | Some userID \<Rightarrow> if userID \<noteq> self then [userID] else [])
                 [''user1'', ''user2''])"


subsection \<open>A sample hub\<close>

definition sampleClients :: "addr \<Rightarrow> Client" where
  "sampleClients a =
     NewClient (if a = 1 \<or> a = 2 then userA else if a = 3 then userB else userC)"

definition sampleRoom :: RedisClient where
  "sampleRoom =
     HSet emptyRedis ''room:r1''
       [(''status'', ''waiting''), (''user1'', userA), (''user2'', userB)]"

definition hubABC :: Hub where
  "hubABC = registerClient 4 (registerClient 3 (registerClient 1 (NewHub sampleRoom sampleClients)))"

definition oneAccepted :: Hub where
  \<comment> \<open>the connection of \<open>userA\<close> has accepted the match for room \<^verbatim>\<open>r1\<close> (first copy)\<close>
  "oneAccepted = runAccepts ArrivalOrder rev [Accept 1 ''r1''] hubABC"

definition connected :: payload where
  "connected = [(''message'', JString ''Connected to RANKEDterview''), (''type'', JString ''connected'')]"

definition sampleOffer :: Event where
  "sampleOffer =
     \<lparr>Event.Type = EventWebRTCOffer, From = '''', To = ''r1'', Event.RoomID = '''',
      Event.Data = [], SDP = JRaw ''{\"type\":\"offer\"}'', Candidate = JNull\<rparr>"


section \<open>Properties of the matchmaking queue\<close>

lemma metaKey_neq_queueKey [simp]: "metaKey u \<noteq> queueKey" "queueKey \<noteq> metaKey u"
  by (simp_all add: metaKey_def queueKey_def)

lemma roomStateKey_neq [simp]:
  "roomStateKey r \<noteq> queueKey" "queueKey \<noteq> roomStateKey r"
  "roomStateKey r \<noteq> metaKey u" "metaKey u \<noteq> roomStateKey r"
  by (simp_all add: metaKey_def queueKey_def roomStateKey_def)

lemma zsets_HSet [simp]: "zsets (HSet r k v) = zsets r"
  by (simp add: HSet_def)

lemma zsets_Expire [simp]: "zsets (Expire r k d) = zsets r"
  by (simp add: Expire_def)

lemma zsets_Del [simp]: "zsets (Del r k) = (zsets r)(k := [])"
  by (simp add: Del_def)

lemma zsets_ZRem [simp]:
  "zsets (ZRem r k m) = (zsets r)(k := filter (\<lambda>e. snd e \<noteq> m) (zsets r k))"
  by (simp add: ZRem_def Let_def)

lemma zsets_ZAdd [simp]:
  "zsets (ZAdd r k sc m) = (zsets r)(k := insort (sc, m) (filter (\<lambda>e. snd e \<noteq> m) (zsets r k)))"
  by (simp add: ZAdd_def)

lemma hashes_Expire [simp]: "hashes (Expire r k d) = hashes r"
  by (simp add: Expire_def)

lemma hashes_Del [simp]: "hashes (Del r k) = (hashes r)(k := [])"
  by (simp add: Del_def)

lemma hashes_ZRem [simp]: "hashes (ZRem r k m) = hashes r"
  by (simp add: ZRem_def Let_def)

lemma hashes_ZAdd [simp]: "hashes (ZAdd r k sc m) = hashes r"
  by (simp add: ZAdd_def)

lemma queueEntries_JoinQueue:
  "queueEntries (snd (JoinQueue e s u k)) =
     (if IsInQueue s u then queueEntries s
      else insort (Unix (now e), u) (filter (\<lambda>x. snd x \<noteq> u) (queueEntries s)))"
  by (simp add: JoinQueue_def queueEntries_def Let_def)

lemma queueEntries_LeaveQueue:
  "queueEntries (snd (LeaveQueue s u)) = filter (\<lambda>x. snd x \<noteq> u) (queueEntries s)"
  by (simp add: LeaveQueue_def queueEntries_def Let_def)

lemma queueEntries_CreateRoomForMatch:
  "queueEntries (snd (CreateRoomForMatch e s a b)) = queueEntries s"
  by (simp add: CreateRoomForMatch_def queueEntries_def Let_def Create_def split: sum.splits)

lemma FindMatch_cases:
  "(\<exists>err. FindMatch e s u = (Inl err, s)) \<or>
   (\<exists>user1 partner s1.
      selectPair u (ZRange (MatchmakingService.redis s) queueKey) = Some (user1, partner) \<and>
      CreateRoomForMatch e s user1 partner = (Inr (generateRoomID e), s1) \<and>
      FindMatch e s u =
        (Inr (generateRoomID e, partner), snd (LeaveQueue (snd (LeaveQueue s1 user1)) partner)))"
proof (cases "selectPair u (ZRange (MatchmakingService.redis s) queueKey)")
  case None
  then show ?thesis by (simp add: FindMatch_def)
next
  case (Some p)
  obtain user1 partner where p: "p = (user1, partner)" by (cases p)
  show ?thesis
  proof (cases "ObjectIDFromHex user1")
    case (Inl err)
    with Some p show ?thesis by (simp add: FindMatch_def CreateRoomForMatch_def)
  next
    case o1: (Inr o1)
    show ?thesis
    proof (cases "ObjectIDFromHex partner")
      case (Inl err)
      with Some p o1 show ?thesis by (simp add: FindMatch_def CreateRoomForMatch_def)
    next
      case (Inr o2)
      with Some p o1 show ?thesis
        by (simp add: FindMatch_def CreateRoomForMatch_def Let_def)
    qed
  qed
qed

lemma queueEntries_FindMatch:
  "\<exists>P. queueEntries (snd (FindMatch e s u)) = filter P (queueEntries s)"
proof -
  from FindMatch_cases[of e s u] show ?thesis
  proof (elim disjE exE conjE)
    fix err assume "FindMatch e s u = (Inl err, s)"
    then have "queueEntries (snd (FindMatch e s u)) = filter (\<lambda>x. True) (queueEntries s)" by simp
    then show ?thesis by blast
  next
    fix user1 partner s1
    assume c: "CreateRoomForMatch e s user1 partner = (Inr (generateRoomID e), s1)"
      and f: "FindMatch e s u =
        (Inr (generateRoomID e, partner), snd (LeaveQueue (snd (LeaveQueue s1 user1)) partner))"
    have "queueEntries s1 = queueEntries s"
      using queueEntries_CreateRoomForMatch[of e s user1 partner] c by simp
    then have "queueEntries (snd (FindMatch e s u)) =
        filter (\<lambda>x. snd x \<noteq> user1 \<and> snd x \<noteq> partner) (queueEntries s)"
      by (simp add: f queueEntries_LeaveQueue conj_commute)
    then show ?thesis by blast
  qed
qed

lemma zsetOK_filter: "zsetOK z \<Longrightarrow> zsetOK (filter P z)"
  by (simp add: zsetOK_def distinct_map_filter sorted_wrt_filter)

lemma distinct_map_insort:
  "distinct (map g (insort x ys)) = (g x \<notin> g ` set ys \<and> distinct (map g ys))"
  by (induction ys) (auto simp: set_insort_key)

lemma zsetOK_insort:
  "zsetOK z \<Longrightarrow> zsetOK (insort (sc, u) (filter (\<lambda>x. snd x \<noteq> u) z))"
  by (auto simp: zsetOK_def sorted_insort sorted_wrt_filter distinct_map_insort
      distinct_map_filter)


lemma IsInQueue_iff:
  assumes "\<forall>x\<in>set (queueEntries s). 0 < fst x"
  shows "IsInQueue s u = (u \<in> set (ZRange (MatchmakingService.redis s) queueKey))"
proof (cases "find (\<lambda>e. snd e = u) (queueEntries s)")
  case None
  then have "u \<notin> snd ` set (queueEntries s)" by (auto simp: find_None_iff)
  with None show ?thesis by (simp add: IsInQueue_def ZScore_def ZRange_def queueEntries_def)
next
  case (Some x)
  then have "x \<in> set (queueEntries s)" "snd x = u" by (auto simp: find_Some_iff)
  moreover from this assms have "0 < fst x" by blast
  ultimately show ?thesis using Some
    by (force simp: IsInQueue_def ZScore_def ZRange_def queueEntries_def)
qed

lemma applyOp_zsetOK:
  assumes "zsetOK (queueEntries s)"
  shows "zsetOK (queueEntries (applyOp e op s))"
proof (cases op)
  case (Join u k)
  with assms show ?thesis by (simp add: queueEntries_JoinQueue zsetOK_insort)
next
  case (Leave u)
  with assms show ?thesis by (simp add: queueEntries_LeaveQueue zsetOK_filter)
next
  case (Find u)
  obtain P where "queueEntries (snd (FindMatch e s u)) = filter P (queueEntries s)"
    using queueEntries_FindMatch by blast
  with Find assms show ?thesis by (simp add: zsetOK_filter)
qed

lemma applyOp_positive:
  assumes "\<forall>x\<in>set (queueEntries s). 0 < fst x" and "0 < Unix (now e)"
  shows "\<forall>x\<in>set (queueEntries (applyOp e op s)). 0 < fst x"
proof (cases op)
  case (Join u k)
  with assms show ?thesis by (auto simp: queueEntries_JoinQueue set_insort_key)
next
  case (Leave u)
  with assms show ?thesis by (simp add: queueEntries_LeaveQueue)
next
  case (Find u)
  obtain P where "queueEntries (snd (FindMatch e s u)) = filter P (queueEntries s)"
    using queueEntries_FindMatch by blast
  with Find assms show ?thesis by simp
qed

lemma runOps_zsetOK:
  "zsetOK (queueEntries s) \<Longrightarrow> zsetOK (queueEntries (runOps ops s))"
proof (induction ops arbitrary: s)
  case Nil
  then show ?case by simp
next
  case (Cons x ops)
  obtain e op where x: "x = (e, op)" by (cases x)
  show ?case using Cons.IH[OF applyOp_zsetOK[OF Cons.prems, of e op]] x by simp
qed

lemma runOps_positive:
  "\<forall>x\<in>set (queueEntries s). 0 < fst x \<Longrightarrow>
   \<forall>x\<in>set ops. 0 < Unix (now (fst x)) \<Longrightarrow>
   \<forall>x\<in>set (queueEntries (runOps ops s)). 0 < fst x"
proof (induction ops arbitrary: s)
  case Nil
  then show ?case by simp
next
  case (Cons x ops)
  obtain e op where x: "x = (e, op)" by (cases x)
  have "0 < Unix (now e)" using Cons.prems(2) x by simp
  from applyOp_positive[OF Cons.prems(1) this, of op]
  have "\<forall>x\<in>set (queueEntries (applyOp e op s)). 0 < fst x" .
  from Cons.IH[OF this] Cons.prems(2) x show ?case by simp
qed

lemma queueEntries_initial [simp]: "queueEntries initial = []"
  by (simp add: queueEntries_def initial_def emptyRedis_def)

text \<open>
  Claim C8. After any sequence of \<^verbatim>\<open>JoinQueue\<close>, \<^verbatim>\<open>LeaveQueue\<close> and \<^verbatim>\<open>FindMatch\<close> calls
  on the initially empty store, no user occurs twice among the Queue Entries. When every
  call read a clock after the Unix epoch (so that every score is positive, which is what
  \<^verbatim>\<open>IsInQueue\<close> tests), \<^verbatim>\<open>JoinQueue\<close> for a user who has a Queue Entry returns
  \<^verbatim>\<open>ErrAlreadyInQueue\<close> and leaves the whole state as it was.
\<close>

theorem queue_entry_unique:
  "distinct (ZRange (MatchmakingService.redis (runOps ops initial)) queueKey) \<and>
   ((\<forall>x\<in>set ops. 0 < Unix (now (fst x))) \<longrightarrow>
      (\<forall>u\<in>set (ZRange (MatchmakingService.redis (runOps ops initial)) queueKey). \<forall>e k.
         JoinQueue e (runOps ops initial) u k = (Some ErrAlreadyInQueue, runOps ops initial)))"
proof (intro conjI impI ballI allI)
  have "zsetOK (queueEntries (runOps ops initial))"
    by (rule runOps_zsetOK) (simp add: zsetOK_def)
  then show "distinct (ZRange (MatchmakingService.redis (runOps ops initial)) queueKey)"
    by (simp add: zsetOK_def ZRange_def queueEntries_def)
next
  fix u e k
  assume pos: "\<forall>x\<in>set ops. 0 < Unix (now (fst x))"
    and u: "u \<in> set (ZRange (MatchmakingService.redis (runOps ops initial)) queueKey)"
  have "\<forall>x\<in>set (queueEntries (runOps ops initial)). 0 < fst x"
    by (rule runOps_positive[OF _ pos]) simp
  from IsInQueue_iff[OF this, of u] u have "IsInQueue (runOps ops initial) u" by simp
  then show "JoinQueue e (runOps ops initial) u k = (Some ErrAlreadyInQueue, runOps ops initial)"
    by (simp add: JoinQueue_def)
qed

lemma scanQueue_adjacent:
  "scanQueue u ms u1 u2 = (a, b) \<Longrightarrow> b \<noteq> u2 \<Longrightarrow>
   \<exists>pre post. ms = pre @ b # post \<and> b \<noteq> u \<and> a = (if pre = [] then u1 else last pre)"
proof (induction ms arbitrary: u1)
  case Nil
  then show ?case by simp
next
  case (Cons m rest)
  show ?case
  proof (cases "m = u \<or> u1 = ''''")
    case True
    then have "scanQueue u rest m u2 = (a, b)" using Cons.prems(1) by (auto split: if_splits)
    from Cons.IH[OF this Cons.prems(2)] obtain pre post where
      p: "rest = pre @ b # post" "b \<noteq> u" "a = (if pre = [] then m else last pre)" by blast
    then have "m # rest = (m # pre) @ b # post \<and> b \<noteq> u \<and>
               a = (if m # pre = [] then u1 else last (m # pre))" by simp
    then show ?thesis by blast
  next
    case False
    then have "a = u1" "b = m" using Cons.prems(1) by (auto split: if_splits)
    with False have "m # rest = [] @ b # rest \<and> b \<noteq> u \<and> a = (if [] = [] then u1 else last [])"
      by simp
    then show ?thesis by blast
  qed
qed

lemma selectPair_Some:
  assumes "selectPair u ms = Some (a, b)"
  shows "a \<in> set ms \<and> b \<in> set ms \<and> b \<noteq> u \<and> (distinct ms \<longrightarrow> a \<noteq> b)"
proof -
  from assms have sc: "scanQueue u ms '''' '''' = (a, b)" and a: "a \<noteq> ''''" and b: "b \<noteq> ''''"
    by (auto simp: selectPair_def split: if_splits prod.splits)
  from scanQueue_adjacent[OF sc b] obtain pre post where
    p: "ms = pre @ b # post" "b \<noteq> u" "a = (if pre = [] then '''' else last pre)" by blast
  from p(3) a have pre: "pre \<noteq> []" "a = last pre" by (auto split: if_splits)
  then have "a \<in> set pre" by simp
  with p show ?thesis by auto
qed

lemma hashes_LeaveQueue:
  "k \<noteq> metaKey u \<Longrightarrow> hashes (MatchmakingService.redis (snd (LeaveQueue s u))) k = hashes (MatchmakingService.redis s) k"
  by (simp add: LeaveQueue_def Let_def)

lemma roomRepo_LeaveQueue [simp]: "roomRepo (snd (LeaveQueue s u)) = roomRepo s"
  by (simp add: LeaveQueue_def Let_def)

lemma CreateRoomForMatch_Inr:
  assumes "CreateRoomForMatch e s a b = (Inr roomID, s1)"
  shows "\<exists>o1 o2. ObjectIDFromHex a = Inr o1 \<and> ObjectIDFromHex b = Inr o2 \<and>
     roomID = generateRoomID e \<and>
     roomRepo s1 = roomRepo s @
       [\<lparr>ID = newObjectID e, Room.RoomID = roomID, Status = ''waiting'', Participants = [o1, o2],
         CreatedAt = now e,
         Metadata = \<lparr>Topic = ''Technical Interview'', Difficulty = ''medium'',
                     RoomMetadata.Type = ''technical''\<rparr>\<rparr>] \<and>
     HGetAll (MatchmakingService.redis s1) (roomStateKey roomID) ''user1'' = Some a \<and>
     HGetAll (MatchmakingService.redis s1) (roomStateKey roomID) ''user2'' = Some b \<and>
     HGetAll (MatchmakingService.redis s1) (roomStateKey roomID) ''status'' = Some ''waiting'' \<and>
     ttl (MatchmakingService.redis s1) (roomStateKey roomID) = Some (2 * Hour)"
  using assms
  by (auto simp: CreateRoomForMatch_def Let_def Create_def HGetAll_def HSet_def Expire_def
      keyExists_def update_conv' split: sum.splits)

lemma indexOf_None: "indexOf xs x = None \<longleftrightarrow> x \<notin> set xs"
  by (induction xs) auto

lemma GetQueueStatus_NotQueued:
  "(GetQueueStatus s u = Inl ErrNotInQueue) = (u \<notin> set (ZRange (MatchmakingService.redis s) queueKey))"
  by (auto simp: GetQueueStatus_def ZRank_def Let_def indexOf_None[symmetric] split: option.splits)

lemma ZRange_queueEntries: "ZRange (MatchmakingService.redis s) queueKey = map snd (queueEntries s)"
  by (simp add: ZRange_def queueEntries_def)

lemma FindMatch_success:
  assumes "selectPair u (ZRange (MatchmakingService.redis s) queueKey) = Some (a, b)"
    and "ObjectIDFromHex a = Inr o1" and "ObjectIDFromHex b = Inr o2"
  shows "FindMatch e s u =
     (Inr (generateRoomID e, b),
      snd (LeaveQueue (snd (LeaveQueue (snd (CreateRoomForMatch e s a b)) a)) b)) \<and>
     fst (CreateRoomForMatch e s a b) = Inr (generateRoomID e)"
  using assms by (simp add: FindMatch_def CreateRoomForMatch_def Let_def)

lemma matched_state:
  assumes c: "CreateRoomForMatch e s a b = (Inr roomID, s1)"
    and s': "s' = snd (LeaveQueue (snd (LeaveQueue s1 a)) b)"
  shows "\<exists>o1 o2. ObjectIDFromHex a = Inr o1 \<and> ObjectIDFromHex b = Inr o2 \<and>
     HGetAll (MatchmakingService.redis s') (roomStateKey roomID) ''user1'' = Some a \<and>
     HGetAll (MatchmakingService.redis s') (roomStateKey roomID) ''user2'' = Some b \<and>
     roomRepo s' = roomRepo s @
       [\<lparr>ID = newObjectID e, Room.RoomID = roomID, Status = ''waiting'', Participants = [o1, o2],
         CreatedAt = now e,
         Metadata = \<lparr>Topic = ''Technical Interview'', Difficulty = ''medium'',
                     RoomMetadata.Type = ''technical''\<rparr>\<rparr>] \<and>
     ZRange (MatchmakingService.redis s') queueKey =
       filter (\<lambda>m. m \<noteq> a \<and> m \<noteq> b) (ZRange (MatchmakingService.redis s) queueKey) \<and>
     GetQueueStatus s' a = Inl ErrNotInQueue \<and> GetQueueStatus s' b = Inl ErrNotInQueue"
proof -
  from CreateRoomForMatch_Inr[OF c] obtain o1 o2 where
    o: "ObjectIDFromHex a = Inr o1" "ObjectIDFromHex b = Inr o2"
    and repo: "roomRepo s1 = roomRepo s @
       [\<lparr>ID = newObjectID e, Room.RoomID = roomID, Status = ''waiting'', Participants = [o1, o2],
         CreatedAt = now e,
         Metadata = \<lparr>Topic = ''Technical Interview'', Difficulty = ''medium'',
                     RoomMetadata.Type = ''technical''\<rparr>\<rparr>]"
    and h1: "HGetAll (MatchmakingService.redis s1) (roomStateKey roomID) ''user1'' = Some a"
    and h2: "HGetAll (MatchmakingService.redis s1) (roomStateKey roomID) ''user2'' = Some b"
    by blast
  have hs: "hashes (MatchmakingService.redis s') (roomStateKey roomID) = hashes (MatchmakingService.redis s1) (roomStateKey roomID)"
    by (simp add: s' hashes_LeaveQueue)
  have q1: "queueEntries s1 = queueEntries s"
    using queueEntries_CreateRoomForMatch[of e s a b] c by simp
  have q: "ZRange (MatchmakingService.redis s') queueKey =
       filter (\<lambda>m. m \<noteq> a \<and> m \<noteq> b) (ZRange (MatchmakingService.redis s) queueKey)"
    by (simp add: s' ZRange_queueEntries queueEntries_LeaveQueue q1 filter_map comp_def conj_commute)
  have "a \<notin> set (ZRange (MatchmakingService.redis s') queueKey)" "b \<notin> set (ZRange (MatchmakingService.redis s') queueKey)"
    by (simp_all add: q)
  then have "GetQueueStatus s' a = Inl ErrNotInQueue" "GetQueueStatus s' b = Inl ErrNotInQueue"
    by (simp_all add: GetQueueStatus_NotQueued)
  with o repo h1 h2 hs q show ?thesis
    by (simp add: HGetAll_def s')
qed

text \<open>
  Claim C1. When \<^verbatim>\<open>FindMatch\<close> succeeds on a queue that holds each user once, the room it
  returns has two participants with different identifiers, both taken from the queue: the
  store's room mapping holds them as \<^verbatim>\<open>user1\<close> and \<^verbatim>\<open>user2\<close>, the room document holds
  their two ObjectIDs, and on return both are gone from the queue, so that
  \<^verbatim>\<open>GetQueueStatus\<close> fails with \<^verbatim>\<open>ErrNotInQueue\<close> for either. In the scenario where A joins
  the empty queue, B joins at a later second and \<^verbatim>\<open>FindMatch\<close> is called for A, the room
  holds exactly A and B, the queue is empty and \<^verbatim>\<open>GetQueueStatus\<close> fails for both.
\<close>

theorem FindMatch_room:
  "(distinct (ZRange (MatchmakingService.redis s) queueKey) \<and>
    FindMatch e s u = (Inr (roomID, partner), s') \<longrightarrow>
      (\<exists>user1 o1 o2.
         user1 \<noteq> partner \<and>
         user1 \<in> set (ZRange (MatchmakingService.redis s) queueKey) \<and>
         partner \<in> set (ZRange (MatchmakingService.redis s) queueKey) \<and>
         ObjectIDFromHex user1 = Inr o1 \<and> ObjectIDFromHex partner = Inr o2 \<and>
         HGetAll (MatchmakingService.redis s') (roomStateKey roomID) ''user1'' = Some user1 \<and>
         HGetAll (MatchmakingService.redis s') (roomStateKey roomID) ''user2'' = Some partner \<and>
         roomRepo s' = roomRepo s @
           [\<lparr>ID = newObjectID e, Room.RoomID = roomID, Status = ''waiting'',
             Participants = [o1, o2], CreatedAt = now e,
             Metadata = \<lparr>Topic = ''Technical Interview'', Difficulty = ''medium'',
                         RoomMetadata.Type = ''technical''\<rparr>\<rparr>] \<and>
         ZRange (MatchmakingService.redis s') queueKey =
           filter (\<lambda>m. m \<noteq> user1 \<and> m \<noteq> partner) (ZRange (MatchmakingService.redis s) queueKey) \<and>
         GetQueueStatus s' user1 = Inl ErrNotInQueue \<and>
         GetQueueStatus s' partner = Inl ErrNotInQueue)) \<and>
   (ObjectIDFromHex A = Inr oa \<and> ObjectIDFromHex B = Inr ob \<and> A \<noteq> B \<and>
    Unix (now e0) < Unix (now e1) \<longrightarrow>
      (let s2 = snd (JoinQueue e1 (snd (JoinQueue e0 initial A k0)) B k1);
           r = FindMatch e2 s2 A
       in ZRange (MatchmakingService.redis s2) queueKey = [A, B] \<and>
          fst r = Inr (generateRoomID e2, B) \<and>
          HGetAll (MatchmakingService.redis (snd r)) (roomStateKey (generateRoomID e2)) ''user1'' = Some A \<and>
          HGetAll (MatchmakingService.redis (snd r)) (roomStateKey (generateRoomID e2)) ''user2'' = Some B \<and>
          map Participants (roomRepo (snd r)) = [[oa, ob]] \<and>
          ZRange (MatchmakingService.redis (snd r)) queueKey = [] \<and>
          GetQueueStatus (snd r) A = Inl ErrNotInQueue \<and>
          GetQueueStatus (snd r) B = Inl ErrNotInQueue))"
proof (intro conjI impI)
  assume h: "distinct (ZRange (MatchmakingService.redis s) queueKey) \<and>
    FindMatch e s u = (Inr (roomID, partner), s')"
  from FindMatch_cases[of e s u] h obtain user1 p s1 where
    sel: "selectPair u (ZRange (MatchmakingService.redis s) queueKey) = Some (user1, p)"
    and c: "CreateRoomForMatch e s user1 p = (Inr (generateRoomID e), s1)"
    and f: "FindMatch e s u =
        (Inr (generateRoomID e, p), snd (LeaveQueue (snd (LeaveQueue s1 user1)) p))"
    by auto
  from f h have eq: "roomID = generateRoomID e" "p = partner"
    "s' = snd (LeaveQueue (snd (LeaveQueue s1 user1)) partner)" by auto
  from selectPair_Some[OF sel] h eq have
    m: "user1 \<in> set (ZRange (MatchmakingService.redis s) queueKey)" "partner \<in> set (ZRange (MatchmakingService.redis s) queueKey)"
       "user1 \<noteq> partner" by auto
  from matched_state[OF c[unfolded eq(2) eq(1)[symmetric]] eq(3)] m
  show "\<exists>user1 o1 o2.
         user1 \<noteq> partner \<and>
         user1 \<in> set (ZRange (MatchmakingService.redis s) queueKey) \<and>
         partner \<in> set (ZRange (MatchmakingService.redis s) queueKey) \<and>
         ObjectIDFromHex user1 = Inr o1 \<and> ObjectIDFromHex partner = Inr o2 \<and>
         HGetAll (MatchmakingService.redis s') (roomStateKey roomID) ''user1'' = Some user1 \<and>
         HGetAll (MatchmakingService.redis s') (roomStateKey roomID) ''user2'' = Some partner \<and>
         roomRepo s' = roomRepo s @
           [\<lparr>ID = newObjectID e, Room.RoomID = roomID, Status = ''waiting'',
             Participants = [o1, o2], CreatedAt = now e,
             Metadata = \<lparr>Topic = ''Technical Interview'', Difficulty = ''medium'',
                         RoomMetadata.Type = ''technical''\<rparr>\<rparr>] \<and>
         ZRange (MatchmakingService.redis s') queueKey =
           filter (\<lambda>m. m \<noteq> user1 \<and> m \<noteq> partner) (ZRange (MatchmakingService.redis s) queueKey) \<and>
         GetQueueStatus s' user1 = Inl ErrNotInQueue \<and>
         GetQueueStatus s' partner = Inl ErrNotInQueue"
    by blast
next
  assume h: "ObjectIDFromHex A = Inr oa \<and> ObjectIDFromHex B = Inr ob \<and> A \<noteq> B \<and>
    Unix (now e0) < Unix (now e1)"
  define s1 where "s1 = snd (JoinQueue e0 initial A k0)"
  define s2 where "s2 = snd (JoinQueue e1 s1 B k1)"
  have ne: "A \<noteq> ''''" "B \<noteq> ''''"
    using h by (auto simp: ObjectIDFromHex_def split: if_splits)
  have "\<not> IsInQueue initial A"
    by (simp add: IsInQueue_def ZScore_def initial_def emptyRedis_def)
  then have q1: "queueEntries s1 = [(Unix (now e0), A)]"
    by (simp add: s1_def queueEntries_JoinQueue)
  have "\<not> IsInQueue s1 B"
    using h q1 by (simp add: IsInQueue_def ZScore_def queueEntries_def)
  then have q2: "queueEntries s2 = [(Unix (now e0), A), (Unix (now e1), B)]"
    using h q1 by (auto simp: s2_def queueEntries_JoinQueue)
  then have z2: "ZRange (MatchmakingService.redis s2) queueKey = [A, B]"
    by (simp add: ZRange_queueEntries)
  have sel: "selectPair A (ZRange (MatchmakingService.redis s2) queueKey) = Some (A, B)"
    using h ne by (auto simp: z2 selectPair_def)
  obtain rid sc where c: "CreateRoomForMatch e2 s2 A B = (Inr rid, sc)" and rid: "rid = generateRoomID e2"
    using h by (auto simp: CreateRoomForMatch_def Let_def)
  have f: "FindMatch e2 s2 A = (Inr (generateRoomID e2, B), snd (LeaveQueue (snd (LeaveQueue sc A)) B))"
    using FindMatch_success[OF sel, of oa ob e2] h c by simp
  have repo2: "roomRepo s2 = []"
    by (simp add: s2_def s1_def JoinQueue_def Let_def initial_def)
  from matched_state[OF c refl] h z2 repo2
  have "HGetAll (MatchmakingService.redis (snd (FindMatch e2 s2 A))) (roomStateKey (generateRoomID e2)) ''user1'' = Some A \<and>
        HGetAll (MatchmakingService.redis (snd (FindMatch e2 s2 A))) (roomStateKey (generateRoomID e2)) ''user2'' = Some B \<and>
        map Participants (roomRepo (snd (FindMatch e2 s2 A))) = [[oa, ob]] \<and>
        ZRange (MatchmakingService.redis (snd (FindMatch e2 s2 A))) queueKey = [] \<and>
        GetQueueStatus (snd (FindMatch e2 s2 A)) A = Inl ErrNotInQueue \<and>
        GetQueueStatus (snd (FindMatch e2 s2 A)) B = Inl ErrNotInQueue"
    by (auto simp: f rid)
  then show "let s2 = snd (JoinQueue e1 (snd (JoinQueue e0 initial A k0)) B k1);
           r = FindMatch e2 s2 A
       in ZRange (MatchmakingService.redis s2) queueKey = [A, B] \<and>
          fst r = Inr (generateRoomID e2, B) \<and>
          HGetAll (MatchmakingService.redis (snd r)) (roomStateKey (generateRoomID e2)) ''user1'' = Some A \<and>
          HGetAll (MatchmakingService.redis (snd r)) (roomStateKey (generateRoomID e2)) ''user2'' = Some B \<and>
          map Participants (roomRepo (snd r)) = [[oa, ob]] \<and>
          ZRange (MatchmakingService.redis (snd r)) queueKey = [] \<and>
          GetQueueStatus (snd r) A = Inl ErrNotInQueue \<and>
          GetQueueStatus (snd r) B = Inl ErrNotInQueue"
    using z2 f by (simp add: Let_def s2_def[symmetric] s1_def[symmetric])
qed

text \<open>
  Claim C9. \<^verbatim>\<open>LeaveQueue\<close> never returns an error, whether or not the user is queued;
  it removes the user's entry from the queue and the user's metadata; and a second call for
  the same user returns no error and leaves the state exactly as the first call left it.
\<close>

theorem LeaveQueue_idempotent:
  "fst (LeaveQueue s userID) = None \<and>
   fst (LeaveQueue (snd (LeaveQueue s userID)) userID) = None \<and>
   snd (LeaveQueue (snd (LeaveQueue s userID)) userID) = snd (LeaveQueue s userID) \<and>
   ZRange (MatchmakingService.redis (snd (LeaveQueue s userID))) queueKey =
     filter (\<lambda>m. m \<noteq> userID) (ZRange (MatchmakingService.redis s) queueKey) \<and>
   hashes (MatchmakingService.redis (snd (LeaveQueue s userID))) (metaKey userID) = []"
  by (simp add: LeaveQueue_def ZRem_def Del_def keyExists_def Let_def ZRange_def
      filter_map comp_def fun_upd_twist)







lemma scanQueue_after_requester:
  "u \<noteq> '''' \<Longrightarrow>
   scanQueue u ms u u2 = (case find (\<lambda>m. m \<noteq> u) ms of None \<Rightarrow> (u, u2) | Some p \<Rightarrow> (u, p))"
  by (induction ms) auto

lemma find_neq_not_empty:
  "'''' \<notin> set ms \<Longrightarrow> find P ms = Some p \<Longrightarrow> p \<noteq> ''''"
  by (induction ms) (auto split: if_splits)

lemma pair_after_requester:
  assumes "u \<noteq> ''''" "'''' \<notin> set xs"
  shows "(case scanQueue u xs u '''' of (user1, user2) \<Rightarrow>
            if user1 = '''' \<or> user2 = '''' then None else Some (user1, user2)) =
         (case find (\<lambda>m. m \<noteq> u) xs of None \<Rightarrow> None | Some p \<Rightarrow> Some (u, p))"
proof (cases "find (\<lambda>m. m \<noteq> u) xs")
  case None
  then show ?thesis using assms by (simp add: scanQueue_after_requester)
next
  case (Some p)
  with assms(2) have "p \<noteq> ''''" by (rule find_neq_not_empty)
  with Some show ?thesis using assms by (simp add: scanQueue_after_requester)
qed

lemma selectPair_specPair:
  assumes ne: "'''' \<notin> set ms"
  shows "selectPair u ms = specPair u ms"
proof (cases ms)
  case Nil
  then show ?thesis by (simp add: selectPair_def specPair_def)
next
  case (Cons a tl1)
  note ms1 = Cons
  show ?thesis
  proof (cases tl1)
    case Nil
    with ms1 show ?thesis by (simp add: selectPair_def specPair_def)
  next
    case (Cons b rest)
    with ms1 have ms: "ms = a # b # rest" by simp
    have a: "a \<noteq> ''''" and b: "b \<noteq> ''''" and rest: "'''' \<notin> set rest"
      and brest: "'''' \<notin> set (b # rest)"
      using ne ms by auto
    show ?thesis
    proof (cases "a = u")
      case True
      then have u: "u \<noteq> ''''" using a by simp
      have "selectPair u ms =
            (case find (\<lambda>m. m \<noteq> u) (b # rest) of None \<Rightarrow> None | Some p \<Rightarrow> Some (u, p))"
        using pair_after_requester[OF u brest] True
        by (simp add: ms selectPair_def del: find.simps)
      moreover have "specPair u ms =
            (case find (\<lambda>m. m \<noteq> u) (b # rest) of None \<Rightarrow> None | Some p \<Rightarrow> Some (u, p))"
        using True by (simp add: ms specPair_def del: find.simps)
      ultimately show ?thesis by simp
    next
      case False
      note au = False
      show ?thesis
      proof (cases "b = u")
        case True
        then have u: "u \<noteq> ''''" using b by simp
        have "selectPair u ms =
              (case find (\<lambda>m. m \<noteq> u) rest of None \<Rightarrow> None | Some p \<Rightarrow> Some (u, p))"
          using pair_after_requester[OF u rest] True au a
          by (simp add: ms selectPair_def)
        moreover have "specPair u ms =
              (case find (\<lambda>m. m \<noteq> u) rest of None \<Rightarrow> None | Some p \<Rightarrow> Some (u, p))"
          using True au by (simp add: ms specPair_def)
        ultimately show ?thesis by simp
      next
        case False
        with au a b show ?thesis
          by (simp add: ms selectPair_def specPair_def)
      qed
    qed
  qed
qed

lemma IsInQueue_queueEntries:
  "IsInQueue s u =
     (case find (\<lambda>e. snd e = u) (queueEntries s) of None \<Rightarrow> False | Some x \<Rightarrow> 0 < fst x)"
  by (simp add: IsInQueue_def ZScore_def queueEntries_def split: option.splits)

lemma Unix_envAt [simp]: "Unix (now (envAt t)) = t"
  by (simp add: envAt_def Unix_def)

lemma queueEntries_twoQueued:
  "queueEntries twoQueued = [(1700000000, userA), (1700000001, userB)]"
  by (simp add: twoQueued_def queueEntries_JoinQueue IsInQueue_queueEntries userA_def userB_def)

lemma queueEntries_threeQueued:
  "queueEntries threeQueued = [(1700000000, userA), (1700000001, userB), (1700000002, userC)]"
  by (simp add: threeQueued_def queueEntries_JoinQueue IsInQueue_queueEntries
      queueEntries_twoQueued userA_def userB_def userC_def)

lemma ObjectIDFromHex_users:
  "ObjectIDFromHex userA = Inr [0x65, 0xa1, 0xb2, 0xc3, 0xd4, 0xe5, 0xf6, 0x07, 0x18, 0x29, 0x3a, 0x01]"
  "ObjectIDFromHex userB = Inr [0x65, 0xa1, 0xb2, 0xc3, 0xd4, 0xe5, 0xf6, 0x07, 0x18, 0x29, 0x3a, 0x02]"
  "ObjectIDFromHex userC = Inr [0x65, 0xa1, 0xb2, 0xc3, 0xd4, 0xe5, 0xf6, 0x07, 0x18, 0x29, 0x3a, 0x03]"
  by (simp_all add: ObjectIDFromHex_def fromHexChar_def userA_def userB_def userC_def)

lemma selectPair_threeQueued_C:
  "selectPair userC (ZRange (MatchmakingService.redis threeQueued) queueKey) = Some (userA, userB)"
  by (simp add: ZRange_queueEntries queueEntries_threeQueued selectPair_def
      userA_def userB_def userC_def)

lemma hexDecode_not_NoMatch: "hexDecode s \<noteq> Inl ErrNoMatchFound"
  by (induction s rule: hexDecode.induct) (auto split: option.splits sum.splits)

lemma CreateRoomForMatch_not_NoMatch:
  "fst (CreateRoomForMatch e s a b) \<noteq> Inl ErrNoMatchFound"
  using hexDecode_not_NoMatch[of a] hexDecode_not_NoMatch[of b]
  by (auto simp: CreateRoomForMatch_def ObjectIDFromHex_def Let_def split: sum.splits if_splits)

lemma FindMatch_NoMatch_iff:
  "(fst (FindMatch e s u) = Inl ErrNoMatchFound) =
     (selectPair u (ZRange (MatchmakingService.redis s) queueKey) = None)"
proof (cases "selectPair u (ZRange (MatchmakingService.redis s) queueKey)")
  case None
  then show ?thesis by (simp add: FindMatch_def)
next
  case (Some p)
  obtain a b where p: "p = (a, b)" by (cases p)
  obtain r s1 where c: "CreateRoomForMatch e s a b = (r, s1)" by (cases "CreateRoomForMatch e s a b")
  with CreateRoomForMatch_not_NoMatch[of e s a b] have "r \<noteq> Inl ErrNoMatchFound" by simp
  with Some p c show ?thesis
    by (cases r) (simp_all add: FindMatch_def Let_def)
qed

text \<open>
  Claim C2. \<^verbatim>\<open>FindMatch\<close> fails with \<^verbatim>\<open>ErrNoMatchFound\<close> when fewer than two users are
  queued. On a queue without the empty identifier (which the loop uses for "not yet
  assigned"), the pair the loop selects is the pair of the specification's rule
  \<open>specPair\<close>: when the rule gives no pair the call fails with \<^verbatim>\<open>ErrNoMatchFound\<close>, also
  with two or more users queued, and when the rule gives a pair the call goes on to create
  the room for exactly that pair and does not fail with \<^verbatim>\<open>ErrNoMatchFound\<close>.
\<close>

theorem FindMatch_pair_rule:
  "(length (ZRange (MatchmakingService.redis s) queueKey) < 2 \<longrightarrow>
      FindMatch e s u = (Inl ErrNoMatchFound, s)) \<and>
   ('''' \<notin> set (ZRange (MatchmakingService.redis s) queueKey) \<longrightarrow>
      selectPair u (ZRange (MatchmakingService.redis s) queueKey) =
        specPair u (ZRange (MatchmakingService.redis s) queueKey) \<and>
      (specPair u (ZRange (MatchmakingService.redis s) queueKey) = None \<longrightarrow>
         FindMatch e s u = (Inl ErrNoMatchFound, s)) \<and>
      (\<forall>a b. specPair u (ZRange (MatchmakingService.redis s) queueKey) = Some (a, b) \<longrightarrow>
         fst (FindMatch e s u) \<noteq> Inl ErrNoMatchFound \<and>
         FindMatch e s u =
           (case CreateRoomForMatch e s a b of
              (Inl err, s1) \<Rightarrow> (Inl err, s1)
            | (Inr roomID, s1) \<Rightarrow>
                (Inr (roomID, b), snd (LeaveQueue (snd (LeaveQueue s1 a)) b)))))"
proof (intro conjI impI allI)
  assume "length (ZRange (MatchmakingService.redis s) queueKey) < 2"
  then show "FindMatch e s u = (Inl ErrNoMatchFound, s)"
    by (simp add: FindMatch_def selectPair_def)
next
  assume ne: "'''' \<notin> set (ZRange (MatchmakingService.redis s) queueKey)"
  show eq: "selectPair u (ZRange (MatchmakingService.redis s) queueKey) =
        specPair u (ZRange (MatchmakingService.redis s) queueKey)"
    by (rule selectPair_specPair[OF ne])
  {
    assume "specPair u (ZRange (MatchmakingService.redis s) queueKey) = None"
    then show "FindMatch e s u = (Inl ErrNoMatchFound, s)"
      by (simp add: FindMatch_def eq)
  }
  {
    fix a b
    assume sp: "specPair u (ZRange (MatchmakingService.redis s) queueKey) = Some (a, b)"
    then show "FindMatch e s u =
           (case CreateRoomForMatch e s a b of
              (Inl err, s1) \<Rightarrow> (Inl err, s1)
            | (Inr roomID, s1) \<Rightarrow>
                (Inr (roomID, b), snd (LeaveQueue (snd (LeaveQueue s1 a)) b)))"
      by (simp add: FindMatch_def eq Let_def split: prod.splits sum.splits)
    show "fst (FindMatch e s u) \<noteq> Inl ErrNoMatchFound"
      using sp by (simp add: FindMatch_NoMatch_iff eq)
  }
qed

lemma users_distinct [simp]:
  "userA \<noteq> userB" "userB \<noteq> userA" "userA \<noteq> userC" "userC \<noteq> userA"
  "userB \<noteq> userC" "userC \<noteq> userB" "userA \<noteq> ''''" "userB \<noteq> ''''" "userC \<noteq> ''''"
  "'''' \<noteq> userA" "'''' \<noteq> userB" "'''' \<noteq> userC"
  by (simp_all add: userA_def userB_def userC_def)

lemma ZRange_twoQueued: "ZRange (MatchmakingService.redis twoQueued) queueKey = [userA, userB]"
  by (simp add: ZRange_queueEntries queueEntries_twoQueued)

lemma ZRange_threeQueued: "ZRange (MatchmakingService.redis threeQueued) queueKey = [userA, userB, userC]"
  by (simp add: ZRange_queueEntries queueEntries_threeQueued)

theorem FindMatch_pair_rule_witness:
  "length (ZRange (MatchmakingService.redis initial) queueKey) < 2 \<and>
   FindMatch (envAt 1700000003) initial userA = (Inl ErrNoMatchFound, initial) \<and>
   '''' \<notin> set (ZRange (MatchmakingService.redis twoQueued) queueKey) \<and>
   length (ZRange (MatchmakingService.redis twoQueued) queueKey) = 2 \<and>
   specPair userB (ZRange (MatchmakingService.redis twoQueued) queueKey) = None \<and>
   FindMatch (envAt 1700000003) twoQueued userB = (Inl ErrNoMatchFound, twoQueued) \<and>
   '''' \<notin> set (ZRange (MatchmakingService.redis threeQueued) queueKey) \<and>
   specPair userB (ZRange (MatchmakingService.redis threeQueued) queueKey) = Some (userB, userC) \<and>
   selectPair userB (ZRange (MatchmakingService.redis threeQueued) queueKey) = Some (userB, userC) \<and>
   fst (FindMatch (envAt 1700000003) threeQueued userB) =
     Inr (generateRoomID (envAt 1700000003), userC)"
proof -
  have h0: "length (ZRange (MatchmakingService.redis initial) queueKey) < 2"
    by (simp add: ZRange_queueEntries)
  have h2: "'''' \<notin> set (ZRange (MatchmakingService.redis twoQueued) queueKey)"
    "length (ZRange (MatchmakingService.redis twoQueued) queueKey) = 2"
    "specPair userB (ZRange (MatchmakingService.redis twoQueued) queueKey) = None"
    by (simp_all add: ZRange_twoQueued specPair_def)
  have h3: "'''' \<notin> set (ZRange (MatchmakingService.redis threeQueued) queueKey)"
    "specPair userB (ZRange (MatchmakingService.redis threeQueued) queueKey) = Some (userB, userC)"
    by (simp_all add: ZRange_threeQueued specPair_def)
  have c: "fst (CreateRoomForMatch (envAt 1700000003) threeQueued userB userC) =
             Inr (generateRoomID (envAt 1700000003))"
    by (simp add: CreateRoomForMatch_def ObjectIDFromHex_users Let_def)
  from FindMatch_pair_rule[of initial "envAt 1700000003" userA] h0
  have r0: "FindMatch (envAt 1700000003) initial userA = (Inl ErrNoMatchFound, initial)"
    by blast
  from FindMatch_pair_rule[of twoQueued "envAt 1700000003" userB] h2
  have r2: "FindMatch (envAt 1700000003) twoQueued userB = (Inl ErrNoMatchFound, twoQueued)"
    by blast
  from FindMatch_pair_rule[of threeQueued "envAt 1700000003" userB] h3
  have r3: "selectPair userB (ZRange (MatchmakingService.redis threeQueued) queueKey) =
              Some (userB, userC)"
    and r4: "FindMatch (envAt 1700000003) threeQueued userB =
           (case CreateRoomForMatch (envAt 1700000003) threeQueued userB userC of
              (Inl err, s1) \<Rightarrow> (Inl err, s1)
            | (Inr roomID, s1) \<Rightarrow>
                (Inr (roomID, userC), snd (LeaveQueue (snd (LeaveQueue s1 userB)) userC)))"
    by auto
  from r4 c have r5: "fst (FindMatch (envAt 1700000003) threeQueued userB) =
     Inr (generateRoomID (envAt 1700000003), userC)"
    by (cases "CreateRoomForMatch (envAt 1700000003) threeQueued userB userC") simp
  from h0 h2 h3 r0 r2 r3 r5 show ?thesis by blast
qed

text \<open>
  Claim C7. There is a queue and a requesting user in it for which \<^verbatim>\<open>FindMatch\<close> succeeds
  with a room whose two participants are two other users; only those two are removed and
  the requesting user stays queued. (Three users queued, the third one asks.)
\<close>

theorem FindMatch_may_exclude_requester:
  "\<exists>e s u roomID partner s' user1.
      distinct (ZRange (MatchmakingService.redis s) queueKey) \<and>
      u \<in> set (ZRange (MatchmakingService.redis s) queueKey) \<and>
      FindMatch e s u = (Inr (roomID, partner), s') \<and>
      HGetAll (MatchmakingService.redis s') (roomStateKey roomID) ''user1'' = Some user1 \<and>
      HGetAll (MatchmakingService.redis s') (roomStateKey roomID) ''user2'' = Some partner \<and>
      (\<exists>o1 o2 ou. ObjectIDFromHex user1 = Inr o1 \<and> ObjectIDFromHex partner = Inr o2 \<and>
         ObjectIDFromHex u = Inr ou \<and> ou \<noteq> o1 \<and> ou \<noteq> o2 \<and>
         map Participants (roomRepo s') = map Participants (roomRepo s) @ [[o1, o2]]) \<and>
      user1 \<noteq> u \<and> partner \<noteq> u \<and>
      ZRange (MatchmakingService.redis s') queueKey =
        filter (\<lambda>m. m \<noteq> user1 \<and> m \<noteq> partner) (ZRange (MatchmakingService.redis s) queueKey) \<and>
      u \<in> set (ZRange (MatchmakingService.redis s') queueKey)"
proof -
  define e where "e = envAt 1700000003"
  obtain s1 where c: "CreateRoomForMatch e threeQueued userA userB = (Inr (generateRoomID e), s1)"
    by (simp add: CreateRoomForMatch_def ObjectIDFromHex_users Let_def)
  define s' where "s' = snd (LeaveQueue (snd (LeaveQueue s1 userA)) userB)"
  have f: "FindMatch e threeQueued userC = (Inr (generateRoomID e, userB), s')"
    using FindMatch_success[OF selectPair_threeQueued_C ObjectIDFromHex_users(1,2), of e] c
    by (simp add: s'_def)
  from matched_state[OF c s'_def]
  have m: "HGetAll (MatchmakingService.redis s') (roomStateKey (generateRoomID e)) ''user1'' = Some userA"
    "HGetAll (MatchmakingService.redis s') (roomStateKey (generateRoomID e)) ''user2'' = Some userB"
    "map Participants (roomRepo s') = map Participants (roomRepo threeQueued) @
       [[[0x65, 0xa1, 0xb2, 0xc3, 0xd4, 0xe5, 0xf6, 0x07, 0x18, 0x29, 0x3a, 0x01],
         [0x65, 0xa1, 0xb2, 0xc3, 0xd4, 0xe5, 0xf6, 0x07, 0x18, 0x29, 0x3a, 0x02]]]"
    "ZRange (MatchmakingService.redis s') queueKey =
       filter (\<lambda>m. m \<noteq> userA \<and> m \<noteq> userB) (ZRange (MatchmakingService.redis threeQueued) queueKey)"
    by (auto simp: ObjectIDFromHex_users)
  have o: "\<exists>o1 o2 ou. ObjectIDFromHex userA = Inr o1 \<and> ObjectIDFromHex userB = Inr o2 \<and>
         ObjectIDFromHex userC = Inr ou \<and> ou \<noteq> o1 \<and> ou \<noteq> o2 \<and>
         map Participants (roomRepo s') = map Participants (roomRepo threeQueued) @ [[o1, o2]]"
    using m(3) by (simp add: ObjectIDFromHex_users)
  have q: "distinct (ZRange (MatchmakingService.redis threeQueued) queueKey)"
    "userC \<in> set (ZRange (MatchmakingService.redis threeQueued) queueKey)"
    "userC \<in> set (ZRange (MatchmakingService.redis s') queueKey)"
    by (simp_all add: m(4) ZRange_threeQueued)
  from q f m(1,2,4) o show ?thesis
    using users_distinct by blast
qed

subsection \<open>The theorems at sample states\<close>

theorem queue_entry_unique_witness:
  "0 < Unix (now (envAt 1700000000)) \<and> 0 < Unix (now (envAt 1700000001)) \<and>
   ZRange (MatchmakingService.redis
     (runOps [(envAt 1700000000, Join userA 1000), (envAt 1700000001, Join userB 1200)] initial))
     queueKey = [userA, userB] \<and>
   JoinQueue (envAt 1700000005)
     (runOps [(envAt 1700000000, Join userA 1000), (envAt 1700000001, Join userB 1200)] initial)
     userA 900 =
     (Some ErrAlreadyInQueue,
      runOps [(envAt 1700000000, Join userA 1000), (envAt 1700000001, Join userB 1200)] initial)"
proof -
  let ?ops = "[(envAt 1700000000, Join userA 1000), (envAt 1700000001, Join userB 1200)]"
  have h1: "\<forall>x\<in>set ?ops. 0 < Unix (now (fst x))" by simp
  have h2: "ZRange (MatchmakingService.redis (runOps ?ops initial)) queueKey = [userA, userB]"
    using ZRange_twoQueued by (simp add: twoQueued_def)
  from queue_entry_unique[of ?ops] h1 h2
  have "JoinQueue (envAt 1700000005) (runOps ?ops initial) userA 900 =
          (Some ErrAlreadyInQueue, runOps ?ops initial)"
    by simp
  with h2 show ?thesis by simp
qed




theorem FindMatch_room_witness:
  "distinct (ZRange (MatchmakingService.redis threeQueued) queueKey) \<and>
   FindMatch (envAt 1700000003) threeQueued userA =
     (Inr (generateRoomID (envAt 1700000003), userB),
      snd (FindMatch (envAt 1700000003) threeQueued userA)) \<and>
   (\<exists>user1 o1 o2.
      user1 \<noteq> userB \<and>
      HGetAll (MatchmakingService.redis (snd (FindMatch (envAt 1700000003) threeQueued userA)))
        (roomStateKey (generateRoomID (envAt 1700000003))) ''user1'' = Some user1 \<and>
      HGetAll (MatchmakingService.redis (snd (FindMatch (envAt 1700000003) threeQueued userA)))
        (roomStateKey (generateRoomID (envAt 1700000003))) ''user2'' = Some userB \<and>
      ZRange (MatchmakingService.redis (snd (FindMatch (envAt 1700000003) threeQueued userA)))
        queueKey =
        filter (\<lambda>m. m \<noteq> user1 \<and> m \<noteq> userB)
          (ZRange (MatchmakingService.redis threeQueued) queueKey)) \<and>
   ObjectIDFromHex userA =
     Inr [0x65, 0xa1, 0xb2, 0xc3, 0xd4, 0xe5, 0xf6, 0x07, 0x18, 0x29, 0x3a, 0x01] \<and>
   ObjectIDFromHex userB =
     Inr [0x65, 0xa1, 0xb2, 0xc3, 0xd4, 0xe5, 0xf6, 0x07, 0x18, 0x29, 0x3a, 0x02] \<and>
   userA \<noteq> userB \<and> Unix (now (envAt 0)) < Unix (now (envAt 1)) \<and>
   fst (FindMatch (envAt 2)
          (snd (JoinQueue (envAt 1) (snd (JoinQueue (envAt 0) initial userA 1000)) userB 1200))
          userA) = Inr (generateRoomID (envAt 2), userB) \<and>
   GetQueueStatus
     (snd (FindMatch (envAt 2)
          (snd (JoinQueue (envAt 1) (snd (JoinQueue (envAt 0) initial userA 1000)) userB 1200))
          userA)) userA = Inl ErrNotInQueue \<and>
   GetQueueStatus
     (snd (FindMatch (envAt 2)
          (snd (JoinQueue (envAt 1) (snd (JoinQueue (envAt 0) initial userA 1000)) userB 1200))
          userA)) userB = Inl ErrNotInQueue"
proof -
  let ?e = "envAt 1700000003"
  have d: "distinct (ZRange (MatchmakingService.redis threeQueued) queueKey)"
    by (simp add: ZRange_threeQueued)
  have sel: "selectPair userA (ZRange (MatchmakingService.redis threeQueued) queueKey) = Some (userA, userB)"
    by (simp add: ZRange_threeQueued selectPair_def)
  have "fst (FindMatch ?e threeQueued userA) = Inr (generateRoomID ?e, userB)"
    using FindMatch_success[OF sel ObjectIDFromHex_users(1,2), of ?e] by simp
  then have f: "FindMatch ?e threeQueued userA =
     (Inr (generateRoomID ?e, userB), snd (FindMatch ?e threeQueued userA))"
    by (simp add: prod_eq_iff)
  have sc: "Unix (now (envAt 0)) < Unix (now (envAt 1))" by simp
  note t = FindMatch_room[of threeQueued ?e userA "generateRoomID ?e" userB
      "snd (FindMatch ?e threeQueued userA)" userA _ userB _ "envAt 0" "envAt 1" 1000 1200 "envAt 2"]
  from t d f have g: "\<exists>user1 o1 o2.
      user1 \<noteq> userB \<and>
      HGetAll (MatchmakingService.redis (snd (FindMatch ?e threeQueued userA)))
        (roomStateKey (generateRoomID ?e)) ''user1'' = Some user1 \<and>
      HGetAll (MatchmakingService.redis (snd (FindMatch ?e threeQueued userA)))
        (roomStateKey (generateRoomID ?e)) ''user2'' = Some userB \<and>
      ZRange (MatchmakingService.redis (snd (FindMatch ?e threeQueued userA))) queueKey =
        filter (\<lambda>m. m \<noteq> user1 \<and> m \<noteq> userB)
          (ZRange (MatchmakingService.redis threeQueued) queueKey)"
    by blast
  from t ObjectIDFromHex_users(1,2) sc
  have s: "fst (FindMatch (envAt 2)
          (snd (JoinQueue (envAt 1) (snd (JoinQueue (envAt 0) initial userA 1000)) userB 1200))
          userA) = Inr (generateRoomID (envAt 2), userB) \<and>
   GetQueueStatus
     (snd (FindMatch (envAt 2)
          (snd (JoinQueue (envAt 1) (snd (JoinQueue (envAt 0) initial userA 1000)) userB 1200))
          userA)) userA = Inl ErrNotInQueue \<and>
   GetQueueStatus
     (snd (FindMatch (envAt 2)
          (snd (JoinQueue (envAt 1) (snd (JoinQueue (envAt 0) initial userA 1000)) userB 1200))
          userA)) userB = Inl ErrNotInQueue"
    by (simp add: Let_def)
  from d f g s sc ObjectIDFromHex_users(1,2) show ?thesis
    by (simp only: users_distinct simp_thms)
qed

section \<open>Properties of the hub and the connections\<close>


lemma trySend_fields [simp]:
  "clients (trySend a p h) = clients h"
  "rooms (trySend a p h) = rooms h"
  "broadcast (trySend a p h) = broadcast h"
  "Hub.redis (trySend a p h) = Hub.redis h"
  by (simp_all add: trySend_def Let_def)

lemma trySend_UserID [simp]:
  "Client.UserID (heap (trySend a p h) x) = Client.UserID (heap h x)"
  "Client.RoomID (heap (trySend a p h) x) = Client.RoomID (heap h x)"
  "sendClosed (heap (trySend a p h) x) = sendClosed (heap h x)"
  by (simp_all add: trySend_def Let_def)

lemma roomSlot_fields [simp]:
  "clients (roomSlot ps p ex k h) = clients h"
  "rooms (roomSlot ps p ex k h) = rooms h"
  "broadcast (roomSlot ps p ex k h) = broadcast h"
  "Hub.redis (roomSlot ps p ex k h) = Hub.redis h"
  "Client.UserID (heap (roomSlot ps p ex k h) x) = Client.UserID (heap h x)"
  "Client.RoomID (heap (roomSlot ps p ex k h) x) = Client.RoomID (heap h x)"
  "sendClosed (heap (roomSlot ps p ex k h) x) = sendClosed (heap h x)"
  by (simp_all add: roomSlot_def sendToClient_def split: option.splits)

lemma getRoomParticipants_fields [simp]:
  "clients (snd (getRoomParticipants t r h)) = clients h"
  "broadcast (snd (getRoomParticipants t r h)) = broadcast h"
  "Hub.redis (snd (getRoomParticipants t r h)) = Hub.redis h"
  "heap (snd (getRoomParticipants t r h)) = heap h"
  "panicked (snd (getRoomParticipants t r h)) = panicked h"
  by (simp_all add: getRoomParticipants_def Let_def split: option.splits)

lemma broadcastToRoomInternal_fields [simp]:
  "clients (broadcastToRoomInternal t r p ex h) = clients h"
  "broadcast (broadcastToRoomInternal t r p ex h) = broadcast h"
  "Hub.redis (broadcastToRoomInternal t r p ex h) = Hub.redis h"
  "Client.UserID (heap (broadcastToRoomInternal t r p ex h) x) = Client.UserID (heap h x)"
  "Client.RoomID (heap (broadcastToRoomInternal t r p ex h) x) = Client.RoomID (heap h x)"
  "sendClosed (heap (broadcastToRoomInternal t r p ex h) x) = sendClosed (heap h x)"
  by (simp_all add: broadcastToRoomInternal_def split_def Let_def)

lemma closeSend_fields [simp]:
  "clients (closeSend a h) = clients h"
  "broadcast (closeSend a h) = broadcast h"
  "rooms (closeSend a h) = rooms h"
  "Hub.redis (closeSend a h) = Hub.redis h"
  "Client.UserID (heap (closeSend a h) x) = Client.UserID (heap h x)"
  "Client.RoomID (heap (closeSend a h) x) = Client.RoomID (heap h x)"
  by (simp_all add: closeSend_def Let_def)

lemma registerClient_clients:
  "clients (registerClient c h) = AList.update (Client.UserID (heap h c)) c (clients h)"
  by (simp add: registerClient_def Let_def Send_def split: option.splits)

lemma registerClient_UserID [simp]:
  "Client.UserID (heap (registerClient c h) x) = Client.UserID (heap h x)"
  by (simp add: registerClient_def Let_def Send_def split: option.splits)

lemma unregisterClient_clients:
  "clients (unregisterClient t c h) =
     (if map_of (clients h) (Client.UserID (heap h c)) = Some c
      then AList.delete (Client.UserID (heap h c)) (clients h) else clients h)"
  by (simp add: unregisterClient_def Let_def BroadcastToRoomExcept_def)

text \<open>
  Claim C5. \<^verbatim>\<open>unregisterClient\<close> removes the registry entry of the connection's user exactly
  when that entry holds this very connection (the same address); otherwise the whole hub
  state is unchanged. When it removes the entry, the entries of all other users stay as they
  were. In particular, after an older and then a newer connection of one user are registered,
  the entry holds the newer one, and unregistering the older one changes nothing.
\<close>

theorem unregister_only_current:
  "clients (unregisterClient t c h) =
     (if map_of (clients h) (Client.UserID (heap h c)) = Some c
      then AList.delete (Client.UserID (heap h c)) (clients h) else clients h) \<and>
   (map_of (clients h) (Client.UserID (heap h c)) \<noteq> Some c \<longrightarrow> unregisterClient t c h = h) \<and>
   (map_of (clients h) (Client.UserID (heap h c)) = Some c \<longrightarrow>
      map_of (clients (unregisterClient t c h)) (Client.UserID (heap h c)) = None \<and>
      (\<forall>u. u \<noteq> Client.UserID (heap h c) \<longrightarrow>
         map_of (clients (unregisterClient t c h)) u = map_of (clients h) u)) \<and>
   (older \<noteq> newer \<and> Client.UserID (heap h older) = Client.UserID (heap h newer) \<longrightarrow>
      map_of (clients (registerClient newer (registerClient older h)))
        (Client.UserID (heap h newer)) = Some newer \<and>
      unregisterClient t older (registerClient newer (registerClient older h)) =
        registerClient newer (registerClient older h))"
proof (intro conjI impI allI)
  show "clients (unregisterClient t c h) =
     (if map_of (clients h) (Client.UserID (heap h c)) = Some c
      then AList.delete (Client.UserID (heap h c)) (clients h) else clients h)"
    by (rule unregisterClient_clients)
next
  assume "map_of (clients h) (Client.UserID (heap h c)) \<noteq> Some c"
  then show "unregisterClient t c h = h" by (simp add: unregisterClient_def)
next
  assume cur: "map_of (clients h) (Client.UserID (heap h c)) = Some c"
  then show "map_of (clients (unregisterClient t c h)) (Client.UserID (heap h c)) = None"
    by (simp add: unregisterClient_clients delete_conv')
  fix u assume "u \<noteq> Client.UserID (heap h c)"
  with cur show "map_of (clients (unregisterClient t c h)) u = map_of (clients h) u"
    by (simp add: unregisterClient_clients delete_conv')
next
  assume h: "older \<noteq> newer \<and> Client.UserID (heap h older) = Client.UserID (heap h newer)"
  let ?h2 = "registerClient newer (registerClient older h)"
  show reg: "map_of (clients ?h2) (Client.UserID (heap h newer)) = Some newer"
    by (simp add: registerClient_clients update_conv')
  have "Client.UserID (heap ?h2 older) = Client.UserID (heap h newer)" using h by simp
  with reg h have "map_of (clients ?h2) (Client.UserID (heap ?h2 older)) \<noteq> Some older" by simp
  then show "unregisterClient t older ?h2 = ?h2" by (simp add: unregisterClient_def)
qed


lemma trySend_other: "x \<noteq> a \<Longrightarrow> heap (trySend a p h) x = heap h x"
  by (simp add: trySend_def Let_def)

lemma trySend_send:
  "\<not> panicked h \<Longrightarrow> \<not> sendClosed (heap h a) \<Longrightarrow>
   send (heap (trySend a p h) x) =
     (if x = a \<and> length (send (heap h a)) < clientBufferSize then send (heap h a) @ [p]
      else send (heap h x))"
  by (simp add: trySend_def Let_def)

lemma trySend_panicked:
  "\<not> sendClosed (heap h a) \<Longrightarrow> panicked (trySend a p h) = panicked h"
  by (simp add: trySend_def Let_def)

lemma fold_trySend_fields [simp]:
  "clients (fold (\<lambda>a. trySend a p) as h) = clients h"
  "rooms (fold (\<lambda>a. trySend a p) as h) = rooms h"
  "broadcast (fold (\<lambda>a. trySend a p) as h) = broadcast h"
  "Hub.redis (fold (\<lambda>a. trySend a p) as h) = Hub.redis h"
  by (induction as arbitrary: h) simp_all

lemma fold_trySend_static [simp]:
  "Client.UserID (heap (fold (\<lambda>a. trySend a p) as h) x) = Client.UserID (heap h x)"
  "Client.RoomID (heap (fold (\<lambda>a. trySend a p) as h) x) = Client.RoomID (heap h x)"
  "sendClosed (heap (fold (\<lambda>a. trySend a p) as h) x) = sendClosed (heap h x)"
  by (induction as arbitrary: h) simp_all

lemma fold_trySend_untouched:
  "x \<notin> set as \<Longrightarrow> heap (fold (\<lambda>a. trySend a p) as h) x = heap h x"
  by (induction as arbitrary: h) (auto simp: trySend_other)

lemma fold_trySend_send:
  assumes "\<not> panicked h"
    and "\<forall>a\<in>set as. \<not> sendClosed (heap h a)"
    and "\<forall>a\<in>set as. length (send (heap h a)) + count_list as a \<le> clientBufferSize"
  shows "\<not> panicked (fold (\<lambda>a. trySend a p) as h) \<and>
         (\<forall>x. send (heap (fold (\<lambda>a. trySend a p) as h) x) =
                send (heap h x) @ replicate (count_list as x) p)"
  using assms
proof (induction as arbitrary: h)
  case Nil
  then show ?case by simp
next
  case (Cons a as)
  let ?h1 = "trySend a p h"
  have open_a: "\<not> sendClosed (heap h a)" using Cons.prems(2) by simp
  have room_a: "length (send (heap h a)) < clientBufferSize" using Cons.prems(3) by force
  have s1: "send (heap ?h1 x) = (if x = a then send (heap h a) @ [p] else send (heap h x))" for x
    using trySend_send[OF Cons.prems(1) open_a, of p x] room_a by simp
  have p1: "\<not> panicked ?h1" using Cons.prems(1) open_a by (simp add: trySend_panicked)
  have c1: "\<forall>b\<in>set as. \<not> sendClosed (heap ?h1 b)" using Cons.prems(2) by simp
  have r1: "\<forall>b\<in>set as. length (send (heap ?h1 b)) + count_list as b \<le> clientBufferSize"
  proof
    fix b assume b: "b \<in> set as"
    then have "length (send (heap h b)) + count_list (a # as) b \<le> clientBufferSize"
      using Cons.prems(3) by simp
    then show "length (send (heap ?h1 b)) + count_list as b \<le> clientBufferSize"
      by (simp add: s1 split: if_splits)
  qed
  from Cons.IH[OF p1 c1 r1] have
    ih: "\<not> panicked (fold (\<lambda>a. trySend a p) as ?h1)"
        "\<And>x. send (heap (fold (\<lambda>a. trySend a p) as ?h1) x) =
              send (heap ?h1 x) @ replicate (count_list as x) p"
    by auto
  show ?case
  proof (intro conjI allI)
    show "\<not> panicked (fold (\<lambda>a. trySend a p) (a # as) h)" using ih(1) by simp
    fix x
    show "send (heap (fold (\<lambda>a. trySend a p) (a # as) h) x) =
            send (heap h x) @ replicate (count_list (a # as) x) p"
      using ih(2)[of x] by (simp add: s1 replicate_append_same)
  qed
qed

lemma broadcastToAllClients_targets:
  "broadcastToAllClients p ex h = fold (\<lambda>a. trySend a p) (allTargets (clients h) ex) h"
proof -
  have "fold (\<lambda>entry h1. if fst entry = ex then h1 else sendToClient (snd entry) p h1) cs h =
        fold (\<lambda>a. trySend a p) (allTargets cs ex) h" for cs
    by (induction cs arbitrary: h) (simp_all add: allTargets_def sendToClient_def)
  then show ?thesis by (simp add: broadcastToAllClients_def)
qed

lemma roomSlot_targets:
  "roomSlot ps p ex k h = fold (\<lambda>a. trySend a p) (slotTarget ps (clients h) ex k) h"
  by (simp add: roomSlot_def slotTarget_def sendToClient_def split: option.splits)

lemma broadcastToRoomInternal_targets:
  "broadcastToRoomInternal t r p ex h =
     fold (\<lambda>a. trySend a p) (roomTargets (fst (getRoomParticipants t r h)) (clients h) ex)
       (snd (getRoomParticipants t r h))"
  by (simp add: broadcastToRoomInternal_def split_def Let_def roomTargets_def roomSlot_targets)

lemma registry_address_user:
  assumes "registryOK h" and "map_of (clients h) v = Some a"
  shows "Client.UserID (heap h a) = v \<and> \<not> sendClosed (heap h a)"
proof -
  from assms(2) have "(v, a) \<in> set (clients h)" by (rule map_of_SomeD)
  with assms(1) show ?thesis by (auto simp: registryOK_def list_all_iff)
qed

lemma registry_entry_user:
  assumes "registryOK h" and "(v, a) \<in> set (clients h)"
  shows "Client.UserID (heap h a) = v \<and> \<not> sendClosed (heap h a)"
  using assms by (auto simp: registryOK_def list_all_iff)

lemma slotTarget_mem:
  assumes "a \<in> set (slotTarget ps cs ex k)"
  shows "\<exists>v. ps k = Some v \<and> v \<noteq> ex \<and> map_of cs v = Some a"
proof (cases "ps k")
  case None
  then have "slotTarget ps cs ex k = []" by (simp add: slotTarget_def)
  with assms show ?thesis by simp
next
  case (Some v)
  note pk = Some
  show ?thesis
  proof (cases "v = ex")
    case True
    with pk have "slotTarget ps cs ex k = []" by (simp add: slotTarget_def)
    with assms show ?thesis by simp
  next
    case False
    note ne = False
    show ?thesis
    proof (cases "map_of cs v")
      case None
      with pk ne have "slotTarget ps cs ex k = []" by (simp add: slotTarget_def)
      with assms show ?thesis by simp
    next
      case (Some b)
      with pk ne have "slotTarget ps cs ex k = [b]" by (simp add: slotTarget_def)
      with assms have "a = b" by simp
      with pk ne Some show ?thesis by simp
    qed
  qed
qed

lemma roomTargets_mem:
  "a \<in> set (roomTargets ps cs ex) \<Longrightarrow>
   \<exists>k v. (k = ''user1'' \<or> k = ''user2'') \<and> ps k = Some v \<and> v \<noteq> ex \<and> map_of cs v = Some a"
  unfolding roomTargets_def using slotTarget_mem[of a ps cs ex] by fastforce

lemma roomTargets_not_sender:
  assumes "registryOK h"
  shows "c \<notin> set (roomTargets ps (clients h) (Client.UserID (heap h c)))"
proof
  assume "c \<in> set (roomTargets ps (clients h) (Client.UserID (heap h c)))"
  from roomTargets_mem[OF this] obtain v where
    v: "v \<noteq> Client.UserID (heap h c)" "map_of (clients h) v = Some c" by blast
  from registry_address_user[OF assms v(2)] v(1) show False by simp
qed

lemma allTargets_not_sender:
  assumes "registryOK h"
  shows "c \<notin> set (allTargets (clients h) (Client.UserID (heap h c)))"
proof
  assume "c \<in> set (allTargets (clients h) (Client.UserID (heap h c)))"
  then obtain v where v: "(v, c) \<in> set (clients h)" "v \<noteq> Client.UserID (heap h c)"
    by (auto simp: allTargets_def)
  from registry_entry_user[OF assms v(1)] v(2) show False by simp
qed

lemma allTargets_distinct:
  assumes "registryOK h"
  shows "distinct (allTargets (clients h) ex)"
proof -
  have "inj_on snd (set (clients h))"
  proof (rule inj_onI)
    fix x y assume x: "x \<in> set (clients h)" and y: "y \<in> set (clients h)" and e: "snd x = snd y"
    from registry_entry_user[OF assms, of "fst x" "snd x"] x
    have "Client.UserID (heap h (snd x)) = fst x" by simp
    moreover from registry_entry_user[OF assms, of "fst y" "snd y"] y
    have "Client.UserID (heap h (snd y)) = fst y" by simp
    ultimately show "x = y" using e by (simp add: prod_eq_iff)
  qed
  moreover have "distinct (clients h)"
    using assms by (simp add: registryOK_def distinct_map)
  ultimately have "distinct (map snd (clients h))" by (simp add: distinct_map)
  then show ?thesis by (simp add: allTargets_def distinct_map_filter)
qed


lemma offer_fields [simp]:
  "clients (offer m h) = clients h"
  "rooms (offer m h) = rooms h"
  "heap (offer m h) = heap h"
  "Hub.redis (offer m h) = Hub.redis h"
  "panicked (offer m h) = panicked h"
  by (simp_all add: offer_def)

lemma offer_broadcast:
  "broadcast (offer m h) =
     (if length (broadcast h) < broadcastBufferSize then broadcast h @ [m] else broadcast h)"
  by (simp add: offer_def)

lemma latchRoom_fields [simp]:
  "clients (latchRoom c r h) = clients h"
  "rooms (latchRoom c r h) = rooms h"
  "broadcast (latchRoom c r h) = broadcast h"
  "Hub.redis (latchRoom c r h) = Hub.redis h"
  "panicked (latchRoom c r h) = panicked h"
  "Client.UserID (heap (latchRoom c r h) x) = Client.UserID (heap h x)"
  "send (heap (latchRoom c r h) x) = send (heap h x)"
  "sendClosed (heap (latchRoom c r h) x) = sendClosed (heap h x)"
  by (simp_all add: latchRoom_def)

lemma registryOK_latchRoom [simp]: "registryOK (latchRoom c r h) = registryOK h"
  by (simp add: registryOK_def)

lemma getRoomParticipants_latchRoom [simp]:
  "fst (getRoomParticipants t r (latchRoom c r' h)) = fst (getRoomParticipants t r h)"
  by (simp add: getRoomParticipants_def Let_def split: option.splits)

lemma getRoomParticipants_send [simp]:
  "send (heap (snd (getRoomParticipants t r h)) x) = send (heap h x)"
  "sendClosed (heap (snd (getRoomParticipants t r h)) x) = sendClosed (heap h x)"
  by simp_all

lemma fold_trySend_panicked:
  "\<forall>a\<in>set as. \<not> sendClosed (heap h a) \<Longrightarrow>
   panicked (fold (\<lambda>a. trySend a p) as h) = panicked h"
  by (induction as arbitrary: h) (simp_all add: trySend_panicked)

lemma fold_trySend_distinct:
  assumes "\<not> panicked h" and "\<forall>a\<in>set as. \<not> sendClosed (heap h a)" and "distinct as"
  shows "send (heap (fold (\<lambda>a. trySend a p) as h) x) =
           (if x \<in> set as \<and> length (send (heap h x)) < clientBufferSize
            then send (heap h x) @ [p] else send (heap h x))"
  using assms
proof (induction as arbitrary: h)
  case Nil
  then show ?case by simp
next
  case (Cons a as)
  let ?h1 = "trySend a p h"
  have open_a: "\<not> sendClosed (heap h a)" using Cons.prems(2) by simp
  have p1: "\<not> panicked ?h1" using Cons.prems(1) open_a by (simp add: trySend_panicked)
  have c1: "\<forall>b\<in>set as. \<not> sendClosed (heap ?h1 b)" using Cons.prems(2) by simp
  have d1: "distinct as" "a \<notin> set as" using Cons.prems(3) by simp_all
  have ih: "send (heap (fold (\<lambda>a. trySend a p) as ?h1) x) =
           (if x \<in> set as \<and> length (send (heap ?h1 x)) < clientBufferSize
            then send (heap ?h1 x) @ [p] else send (heap ?h1 x))"
    by (rule Cons.IH[OF p1 c1 d1(1)])
  show ?case
    using ih d1(2) trySend_send[OF Cons.prems(1) open_a, of p x]
    by (auto split: if_splits)
qed

lemma targets_open:
  assumes "registryOK h"
  shows "\<forall>a\<in>set (roomTargets ps (clients h) ex). \<not> sendClosed (heap h a)"
    and "\<forall>a\<in>set (allTargets (clients h) ex). \<not> sendClosed (heap h a)"
proof -
  show "\<forall>a\<in>set (roomTargets ps (clients h) ex). \<not> sendClosed (heap h a)"
  proof
    fix a assume "a \<in> set (roomTargets ps (clients h) ex)"
    from roomTargets_mem[OF this] obtain v where "map_of (clients h) v = Some a" by blast
    from registry_address_user[OF assms this] show "\<not> sendClosed (heap h a)" by simp
  qed
  show "\<forall>a\<in>set (allTargets (clients h) ex). \<not> sendClosed (heap h a)"
  proof
    fix a assume "a \<in> set (allTargets (clients h) ex)"
    then obtain v where "(v, a) \<in> set (clients h)" by (auto simp: allTargets_def)
    from registry_entry_user[OF assms this] show "\<not> sendClosed (heap h a)" by simp
  qed
qed

lemma roomTargets_set:
  assumes "distinct (map fst cs)"
  shows "set (roomTargets ps cs ex) =
     {a. \<exists>k v. (k = ''user1'' \<or> k = ''user2'') \<and> ps k = Some v \<and> v \<noteq> ex \<and> map_of cs v = Some a}"
proof (intro set_eqI iffI)
  fix a assume "a \<in> set (roomTargets ps cs ex)"
  from roomTargets_mem[OF this]
  show "a \<in> {a. \<exists>k v. (k = ''user1'' \<or> k = ''user2'') \<and> ps k = Some v \<and> v \<noteq> ex \<and> map_of cs v = Some a}"
    by blast
next
  fix a
  assume "a \<in> {a. \<exists>k v. (k = ''user1'' \<or> k = ''user2'') \<and> ps k = Some v \<and> v \<noteq> ex \<and> map_of cs v = Some a}"
  then obtain k v where k: "k = ''user1'' \<or> k = ''user2''" and
    v: "ps k = Some v" "v \<noteq> ex" "map_of cs v = Some a" by blast
  from v have "slotTarget ps cs ex k = [a]" by (simp add: slotTarget_def)
  with k show "a \<in> set (roomTargets ps cs ex)" by (auto simp: roomTargets_def)
qed


lemma handleBroadcast_fields [simp]:
  "clients (handleBroadcast t m g) = clients g"
  "broadcast (handleBroadcast t m g) = broadcast g"
  "Hub.redis (handleBroadcast t m g) = Hub.redis g"
  "Client.UserID (heap (handleBroadcast t m g) x) = Client.UserID (heap g x)"
  "sendClosed (heap (handleBroadcast t m g) x) = sendClosed (heap g x)"
  by (simp_all add: handleBroadcast_def broadcastToAllClients_targets sendToUser_def
      sendToClient_def split: option.splits)

lemma registryOK_handleBroadcast [simp]: "registryOK (handleBroadcast t m g) = registryOK g"
  by (simp add: registryOK_def)

lemma handleBroadcast_panicked:
  assumes ok: "registryOK g"
  shows "panicked (handleBroadcast t m g) = panicked g"
proof -
  have a: "panicked (broadcastToAllClients p ex g) = panicked g" for p ex
    using fold_trySend_panicked[OF targets_open(2)[OF ok, of ex], of p]
    by (simp add: broadcastToAllClients_targets)
  have b: "panicked (sendToUser w p g) = panicked g" for w p
  proof (cases "map_of (clients g) w")
    case None
    then show ?thesis by (simp add: sendToUser_def)
  next
    case (Some a)
    with registry_address_user[OF ok Some] show ?thesis
      by (simp add: sendToUser_def sendToClient_def trySend_panicked)
  qed
  have c: "panicked (broadcastToRoomInternal t r p ex g) = panicked g" for r p ex
  proof -
    let ?g = "snd (getRoomParticipants t r g)"
    let ?ts = "roomTargets (fst (getRoomParticipants t r g)) (clients g) ex"
    have "\<forall>a\<in>set ?ts. \<not> sendClosed (heap ?g a)"
      using targets_open(1)[OF ok, of "fst (getRoomParticipants t r g)" ex] by simp
    from fold_trySend_panicked[OF this, of p] show ?thesis
      by (simp add: broadcastToRoomInternal_targets)
  qed
  show ?thesis by (simp add: handleBroadcast_def a b c)
qed

lemma registryOK_broadcast_update [simp]: "registryOK (g\<lparr>broadcast := ms\<rparr>) = registryOK g"
  by (simp add: registryOK_def)

lemma broadcastWorker_Cons:
  "broadcast g = m # ms \<Longrightarrow> broadcastWorker t g = handleBroadcast t m (g\<lparr>broadcast := ms\<rparr>)"
  by (simp add: broadcastWorker_def)

lemma broadcastWorker_fields [simp]:
  "clients (broadcastWorker t g) = clients g"
  "Hub.redis (broadcastWorker t g) = Hub.redis g"
  "Client.UserID (heap (broadcastWorker t g) x) = Client.UserID (heap g x)"
  "sendClosed (heap (broadcastWorker t g) x) = sendClosed (heap g x)"
  "broadcast (broadcastWorker t g) = tl (broadcast g)"
  by (simp_all add: broadcastWorker_def split: list.splits)

lemma registryOK_broadcastWorker [simp]: "registryOK (broadcastWorker t g) = registryOK g"
  by (simp add: registryOK_def)

lemma broadcastWorker_panicked:
  "registryOK g \<Longrightarrow> panicked (broadcastWorker t g) = panicked g"
  by (simp add: broadcastWorker_def handleBroadcast_panicked split: list.splits)

lemma workerTurns_fields [simp]:
  "clients (workerTurns ts g) = clients g"
  "Hub.redis (workerTurns ts g) = Hub.redis g"
  "Client.UserID (heap (workerTurns ts g) x) = Client.UserID (heap g x)"
  "sendClosed (heap (workerTurns ts g) x) = sendClosed (heap g x)"
  "broadcast (workerTurns ts g) = drop (length ts) (broadcast g)"
  by (induction ts arbitrary: g) (simp_all add: drop_Suc tl_drop)

lemma registryOK_workerTurns [simp]: "registryOK (workerTurns ts g) = registryOK g"
  by (simp add: registryOK_def)

lemma workerTurns_panicked:
  "registryOK g \<Longrightarrow> panicked (workerTurns ts g) = panicked g"
  by (induction ts arbitrary: g) (simp_all add: broadcastWorker_panicked)

text \<open>
  After as many worker turns as there were messages waiting before it, a message is at the
  head of the channel, and the next turn handles it.
\<close>

lemma worker_takes:
  assumes "broadcast g = xs @ m # rest" "length ts = length xs"
  shows "broadcast (workerTurns ts g) = m # rest"
    and "broadcastWorker t (workerTurns ts g) =
           handleBroadcast t m ((workerTurns ts g)\<lparr>broadcast := rest\<rparr>)"
proof -
  show b: "broadcast (workerTurns ts g) = m # rest" using assms by simp
  show "broadcastWorker t (workerTurns ts g) =
           handleBroadcast t m ((workerTurns ts g)\<lparr>broadcast := rest\<rparr>)"
    by (rule broadcastWorker_Cons[OF b])
qed

lemma toUser_worker:
  assumes "registryOK g" "\<not> panicked g" "w \<noteq> ''''" "broadcast g = toUser w d # rest"
  shows "send (heap (broadcastWorker t g) x) =
           (if map_of (clients g) w = Some x \<and> length (send (heap g x)) < clientBufferSize
            then send (heap g x) @ [d] else send (heap g x))"
    and "broadcast (broadcastWorker t g) = rest"
proof -
  let ?g = "g\<lparr>broadcast := rest\<rparr>"
  have "send (heap (handleBroadcast t (toUser w d) ?g) x) =
           (if map_of (clients g) w = Some x \<and> length (send (heap g x)) < clientBufferSize
            then send (heap g x) @ [d] else send (heap g x))"
  proof (cases "map_of (clients g) w")
    case None
    then show ?thesis using assms(3)
      by (simp add: handleBroadcast_def toUser_def sendToUser_def)
  next
    case (Some a)
    from registry_address_user[OF assms(1) Some] have "\<not> sendClosed (heap ?g a)" by simp
    moreover have "\<not> panicked ?g" using assms(2) by simp
    ultimately have "send (heap (trySend a d ?g) x) =
        (if x = a \<and> length (send (heap ?g a)) < clientBufferSize then send (heap ?g a) @ [d]
         else send (heap ?g x))"
      by (rule trySend_send[rotated])
    then show ?thesis using Some assms(3)
      by (auto simp: handleBroadcast_def toUser_def sendToUser_def sendToClient_def)
  qed
  then show "send (heap (broadcastWorker t g) x) =
           (if map_of (clients g) w = Some x \<and> length (send (heap g x)) < clientBufferSize
            then send (heap g x) @ [d] else send (heap g x))"
    by (simp add: broadcastWorker_Cons[OF assms(4)])
  show "broadcast (broadcastWorker t g) = rest" using assms(4) by simp
qed


lemma relayWebRTC_room:
  "To msg \<noteq> '''' \<Longrightarrow>
   relayWebRTC t c msg h =
     BroadcastToAllExcept (Client.UserID (heap h c)) (webrtcPayload (Client.UserID (heap h c)) msg)
       (BroadcastToRoomExcept t (To msg) (Client.UserID (heap h c))
          (webrtcPayload (Client.UserID (heap h c)) msg) (latchRoom c (To msg) h))"
  by (simp add: relayWebRTC_def Let_def)

lemma room_delivery:
  fixes h :: Hub and t :: Time and r ex :: string and p :: payload and c :: addr
  assumes ok: "registryOK h"
  defines "ps \<equiv> fst (getRoomParticipants t r h)"
  defines "h2 \<equiv> BroadcastToRoomExcept t r ex p (latchRoom c r h)"
  defines "targets \<equiv> roomTargets ps (clients h) ex"
  shows "panicked h2 = panicked h"
    and "x \<notin> set targets \<Longrightarrow> send (heap h2 x) = send (heap h x)"
    and "\<not> panicked h \<Longrightarrow>
         \<forall>a\<in>set targets. length (send (heap h a)) + count_list targets a \<le> clientBufferSize \<Longrightarrow>
         send (heap h2 x) = send (heap h x) @ replicate (count_list targets x) p"
    and "clients h2 = clients h" and "broadcast h2 = broadcast h"
    and "Client.UserID (heap h2 x) = Client.UserID (heap h x)"
    and "sendClosed (heap h2 x) = sendClosed (heap h x)"
proof -
  let ?g = "snd (getRoomParticipants t r (latchRoom c r h))"
  have h2: "h2 = fold (\<lambda>a. trySend a p) targets ?g"
    by (simp add: h2_def BroadcastToRoomExcept_def broadcastToRoomInternal_targets
        targets_def ps_def)
  have op: "\<forall>a\<in>set targets. \<not> sendClosed (heap ?g a)"
    using targets_open(1)[OF ok, of ps ex] by (simp add: targets_def)
  show "panicked h2 = panicked h"
    using fold_trySend_panicked[OF op, of p] by (simp add: h2)
  show "x \<notin> set targets \<Longrightarrow> send (heap h2 x) = send (heap h x)"
    by (simp add: h2 fold_trySend_untouched)
  show "clients h2 = clients h" "broadcast h2 = broadcast h"
    "Client.UserID (heap h2 x) = Client.UserID (heap h x)"
    "sendClosed (heap h2 x) = sendClosed (heap h x)"
    by (simp_all add: h2)
  assume np: "\<not> panicked h"
    and cap: "\<forall>a\<in>set targets. length (send (heap h a)) + count_list targets a \<le> clientBufferSize"
  have np': "\<not> panicked ?g" using np by simp
  have cap': "\<forall>a\<in>set targets. length (send (heap ?g a)) + count_list targets a \<le> clientBufferSize"
    using cap by simp
  from fold_trySend_send[OF np' op cap', of p]
  show "send (heap h2 x) = send (heap h x) @ replicate (count_list targets x) p"
    by (simp add: h2)
qed

lemma all_delivery:
  fixes g :: Hub and t :: Time and ex :: string and p :: payload
  assumes ok: "registryOK g" and np: "\<not> panicked g"
  defines "g' \<equiv> handleBroadcast t (allExcept ex p) g"
  shows "\<not> panicked g'"
    and "send (heap g' x) =
           (if x \<in> set (allTargets (clients g) ex) \<and> length (send (heap g x)) < clientBufferSize
            then send (heap g x) @ [p] else send (heap g x))"
proof -
  have g': "g' = fold (\<lambda>a. trySend a p) (allTargets (clients g) ex) g"
    by (simp add: g'_def handleBroadcast_def allExcept_def broadcastToAllClients_targets)
  show "\<not> panicked g'"
    using fold_trySend_panicked[where as="allTargets (clients g) ex" and h=g and p=p]
      targets_open(2)[OF ok, of ex] np by (simp add: g')
  show "send (heap g' x) =
           (if x \<in> set (allTargets (clients g) ex) \<and> length (send (heap g x)) < clientBufferSize
            then send (heap g x) @ [p] else send (heap g x))"
    unfolding g'
    by (rule fold_trySend_distinct[OF np targets_open(2)[OF ok] allTargets_distinct[OF ok]])
qed

text \<open>
  Claim C6. When a connection of user \<open>u\<close> relays a negotiation event whose \<^verbatim>\<open>to\<close> field names
  a room, \<^verbatim>\<open>relayWebRTC\<close> is the room delivery followed by the process-wide delivery, both
  excluding \<open>u\<close>. The room delivery appends the payload to the outbound channel of the
  connection registered for each participant (slots \<^verbatim>\<open>user1\<close>, \<^verbatim>\<open>user2\<close>) other than \<open>u\<close>, when
  the channel has room, and to no other channel; the sender's channel is unchanged. The
  process-wide delivery is one message on the hub's broadcast channel, when that has room;
  the worker that handles it appends the payload to the channel of every registered
  connection of another user and leaves the channels of \<open>u\<close>, the sender's among them,
  unchanged. And the workers do handle it: once they have taken the messages that were
  waiting before it, the message is the only one on the broadcast channel, and the next
  worker turn takes it off and appends the payload to the channel of every registered
  connection of another user that has room, and to none of \<open>u\<close>.
\<close>

theorem relayWebRTC_delivers:
  "registryOK h \<and> \<not> panicked h \<and> To msg \<noteq> '''' \<longrightarrow>
     (let u = Client.UserID (heap h c);
          p = webrtcPayload u msg;
          ps = fst (getRoomParticipants t (To msg) h);
          targets = roomTargets ps (clients h) u;
          h' = relayWebRTC t c msg h
      in h' = BroadcastToAllExcept u p (BroadcastToRoomExcept t (To msg) u p (latchRoom c (To msg) h)) \<and>
         set targets =
           {a. \<exists>k v. (k = ''user1'' \<or> k = ''user2'') \<and> ps k = Some v \<and> v \<noteq> u \<and>
                      map_of (clients h) v = Some a} \<and>
         c \<notin> set targets \<and>
         send (heap h' c) = send (heap h c) \<and>
         \<not> panicked h' \<and>
         ((\<forall>a\<in>set targets. length (send (heap h a)) + count_list targets a \<le> clientBufferSize) \<longrightarrow>
            (\<forall>x. send (heap h' x) = send (heap h x) @ replicate (count_list targets x) p)) \<and>
         (length (broadcast h) < broadcastBufferSize \<longrightarrow>
            broadcast h' = broadcast h @ [allExcept u p]) \<and>
         (\<forall>g t'. registryOK g \<and> \<not> panicked g \<and> Client.UserID (heap g c) = u \<longrightarrow>
            (let g' = handleBroadcast t' (allExcept u p) g
             in send (heap g' c) = send (heap g c) \<and>
                \<not> panicked g' \<and>
                (\<forall>v a. (v, a) \<in> set (clients g) \<and> v \<noteq> u \<and>
                        length (send (heap g a)) < clientBufferSize \<longrightarrow>
                          send (heap g' a) = send (heap g a) @ [p]) \<and>
                (\<forall>a. (u, a) \<in> set (clients g) \<longrightarrow> send (heap g' a) = send (heap g a)))) \<and>
         (length (broadcast h) < broadcastBufferSize \<longrightarrow>
            (\<forall>ts t'. length ts = length (broadcast h) \<longrightarrow>
               (let g = workerTurns ts h';
                    g' = broadcastWorker t' g
                in broadcast g = [allExcept u p] \<and> broadcast g' = [] \<and>
                   clients g' = clients h \<and> \<not> panicked g' \<and>
                   send (heap g' c) = send (heap g c) \<and>
                   (\<forall>v a. (v, a) \<in> set (clients h) \<and> v \<noteq> u \<and>
                           length (send (heap g a)) < clientBufferSize \<longrightarrow>
                             send (heap g' a) = send (heap g a) @ [p]) \<and>
                   (\<forall>a. (u, a) \<in> set (clients h) \<longrightarrow> send (heap g' a) = send (heap g a))))))"
proof (intro impI)
  assume a: "registryOK h \<and> \<not> panicked h \<and> To msg \<noteq> ''''"
  then have ok: "registryOK h" and np: "\<not> panicked h" and to: "To msg \<noteq> ''''" by auto
  define u where "u = Client.UserID (heap h c)"
  define p where "p = webrtcPayload u msg"
  define ps where "ps = fst (getRoomParticipants t (To msg) h)"
  define targets where "targets = roomTargets ps (clients h) u"
  define h2 where "h2 = BroadcastToRoomExcept t (To msg) u p (latchRoom c (To msg) h)"
  define h' where "h' = relayWebRTC t c msg h"
  have h': "h' = BroadcastToAllExcept u p h2"
    using relayWebRTC_room[OF to, of t c h] by (simp add: h'_def h2_def u_def p_def)
  note rd = room_delivery[OF ok, where t=t and r="To msg" and ex=u and p=p and c=c,
      folded ps_def h2_def targets_def]
  have heap': "heap h' = heap h2" and pan': "panicked h' = panicked h2"
    by (simp_all add: h' BroadcastToAllExcept_def)
  have c1: "h' = BroadcastToAllExcept u p (BroadcastToRoomExcept t (To msg) u p (latchRoom c (To msg) h))"
    by (simp add: h' h2_def)
  have c2: "set targets =
           {a. \<exists>k v. (k = ''user1'' \<or> k = ''user2'') \<and> ps k = Some v \<and> v \<noteq> u \<and>
                      map_of (clients h) v = Some a}"
    unfolding targets_def using ok by (intro roomTargets_set) (simp add: registryOK_def)
  have c3: "c \<notin> set targets"
    unfolding targets_def u_def by (rule roomTargets_not_sender[OF ok])
  have c4: "send (heap h' c) = send (heap h c)"
    using rd(2)[OF c3] by (simp add: heap')
  have c5: "\<not> panicked h'" using rd(1) np by (simp add: pan')
  have c6: "(\<forall>a\<in>set targets. length (send (heap h a)) + count_list targets a \<le> clientBufferSize) \<longrightarrow>
            (\<forall>x. send (heap h' x) = send (heap h x) @ replicate (count_list targets x) p)"
    using rd(3)[OF np] by (simp add: heap')
  have c7: "length (broadcast h) < broadcastBufferSize \<longrightarrow>
            broadcast h' = broadcast h @ [allExcept u p]"
    using rd(5) by (simp add: h' BroadcastToAllExcept_def offer_broadcast)
  have c8: "\<forall>g t'. registryOK g \<and> \<not> panicked g \<and> Client.UserID (heap g c) = u \<longrightarrow>
            (let g' = handleBroadcast t' (allExcept u p) g
             in send (heap g' c) = send (heap g c) \<and>
                \<not> panicked g' \<and>
                (\<forall>v a. (v, a) \<in> set (clients g) \<and> v \<noteq> u \<and>
                        length (send (heap g a)) < clientBufferSize \<longrightarrow>
                          send (heap g' a) = send (heap g a) @ [p]) \<and>
                (\<forall>a. (u, a) \<in> set (clients g) \<longrightarrow> send (heap g' a) = send (heap g a)))"
  proof (intro allI impI)
    fix g t'
    assume g: "registryOK g \<and> \<not> panicked g \<and> Client.UserID (heap g c) = u"
    then have gok: "registryOK g" and gnp: "\<not> panicked g" and gu: "Client.UserID (heap g c) = u"
      by auto
    note ad = all_delivery[OF gok gnp, where t=t' and ex=u and p=p]
    have s: "c \<notin> set (allTargets (clients g) u)"
      using allTargets_not_sender[OF gok, of c] gu by simp
    have own: "\<forall>a. (u, a) \<in> set (clients g) \<longrightarrow> a \<notin> set (allTargets (clients g) u)"
    proof (intro allI impI notI)
      fix a assume ua: "(u, a) \<in> set (clients g)" and "a \<in> set (allTargets (clients g) u)"
      then obtain v where v: "(v, a) \<in> set (clients g)" "v \<noteq> u" by (auto simp: allTargets_def)
      from registry_entry_user[OF gok ua] registry_entry_user[OF gok v(1)] v(2)
      show False by simp
    qed
    have others: "\<forall>v a. (v, a) \<in> set (clients g) \<and> v \<noteq> u \<longrightarrow> a \<in> set (allTargets (clients g) u)"
      by (force simp: allTargets_def)
    show "let g' = handleBroadcast t' (allExcept u p) g
             in send (heap g' c) = send (heap g c) \<and>
                \<not> panicked g' \<and>
                (\<forall>v a. (v, a) \<in> set (clients g) \<and> v \<noteq> u \<and>
                        length (send (heap g a)) < clientBufferSize \<longrightarrow>
                          send (heap g' a) = send (heap g a) @ [p]) \<and>
                (\<forall>a. (u, a) \<in> set (clients g) \<longrightarrow> send (heap g' a) = send (heap g a))"
      using ad s own others unfolding Let_def by auto
  qed
  have c9: "length (broadcast h) < broadcastBufferSize \<longrightarrow>
            (\<forall>ts t'. length ts = length (broadcast h) \<longrightarrow>
               (let g = workerTurns ts h';
                    g' = broadcastWorker t' g
                in broadcast g = [allExcept u p] \<and> broadcast g' = [] \<and>
                   clients g' = clients h \<and> \<not> panicked g' \<and>
                   send (heap g' c) = send (heap g c) \<and>
                   (\<forall>v a. (v, a) \<in> set (clients h) \<and> v \<noteq> u \<and>
                           length (send (heap g a)) < clientBufferSize \<longrightarrow>
                             send (heap g' a) = send (heap g a) @ [p]) \<and>
                   (\<forall>a. (u, a) \<in> set (clients h) \<longrightarrow> send (heap g' a) = send (heap g a))))"
  proof (intro impI allI)
    fix ts :: "Time list" and t' :: Time
    assume cap: "length (broadcast h) < broadcastBufferSize"
      and len: "length ts = length (broadcast h)"
    define g where "g = workerTurns ts h'"
    define g0 where "g0 = g\<lparr>broadcast := []\<rparr>"
    define g' where "g' = broadcastWorker t' g"
    have cl: "clients h' = clients h" using rd(4) by (simp add: h' BroadcastToAllExcept_def)
    have ok': "registryOK h'"
      using ok rd(6,7) by (simp add: registryOK_def cl heap')
    have b: "broadcast h' = broadcast h @ allExcept u p # []" using c7 cap by simp
    note wt = worker_takes(1)[OF b len, folded g_def]
      worker_takes(2)[OF b len, of t', folded g_def]
    have g'eq: "g' = handleBroadcast t' (allExcept u p) g0" using wt(2) by (simp add: g'_def g0_def)
    have gok: "registryOK g0" using ok' by (simp add: g0_def g_def)
    have gnp: "\<not> panicked g0"
      using workerTurns_panicked[OF ok', of ts] c5 by (simp add: g0_def g_def)
    have gu: "Client.UserID (heap g0 c) = u"
      using rd(6)[of c] by (simp add: g0_def g_def heap' u_def)
    have hp: "heap g0 = heap g" and cg: "clients g0 = clients h"
      by (simp_all add: g0_def g_def cl)
    from c8[rule_format, of g0 t', OF conjI[OF gok conjI[OF gnp gu]]]
    have d: "send (heap g' c) = send (heap g c) \<and>
                \<not> panicked g' \<and>
                (\<forall>v a. (v, a) \<in> set (clients h) \<and> v \<noteq> u \<and>
                        length (send (heap g a)) < clientBufferSize \<longrightarrow>
                          send (heap g' a) = send (heap g a) @ [p]) \<and>
                (\<forall>a. (u, a) \<in> set (clients h) \<longrightarrow> send (heap g' a) = send (heap g a))"
      unfolding Let_def g'eq[symmetric] hp cg .
    have b1: "broadcast g = [allExcept u p]" using wt(1) .
    have b2: "broadcast g' = []" using b1 by (simp add: g'_def)
    have c': "clients g' = clients h" by (simp add: g'_def g_def cl)
    from b1 b2 c' d
    show "let g = workerTurns ts h';
                    g' = broadcastWorker t' g
                in broadcast g = [allExcept u p] \<and> broadcast g' = [] \<and>
                   clients g' = clients h \<and> \<not> panicked g' \<and>
                   send (heap g' c) = send (heap g c) \<and>
                   (\<forall>v a. (v, a) \<in> set (clients h) \<and> v \<noteq> u \<and>
                           length (send (heap g a)) < clientBufferSize \<longrightarrow>
                             send (heap g' a) = send (heap g a) @ [p]) \<and>
                   (\<forall>a. (u, a) \<in> set (clients h) \<longrightarrow> send (heap g' a) = send (heap g a))"
      unfolding Let_def g_def[symmetric] g'_def[symmetric] by blast
  qed
  from c1 c2 c3 c4 c5 c6 c7 c8 c9
  show "let u = Client.UserID (heap h c);
          p = webrtcPayload u msg;
          ps = fst (getRoomParticipants t (To msg) h);
          targets = roomTargets ps (clients h) u;
          h' = relayWebRTC t c msg h
      in h' = BroadcastToAllExcept u p (BroadcastToRoomExcept t (To msg) u p (latchRoom c (To msg) h)) \<and>
         set targets =
           {a. \<exists>k v. (k = ''user1'' \<or> k = ''user2'') \<and> ps k = Some v \<and> v \<noteq> u \<and>
                      map_of (clients h) v = Some a} \<and>
         c \<notin> set targets \<and>
         send (heap h' c) = send (heap h c) \<and>
         \<not> panicked h' \<and>
         ((\<forall>a\<in>set targets. length (send (heap h a)) + count_list targets a \<le> clientBufferSize) \<longrightarrow>
            (\<forall>x. send (heap h' x) = send (heap h x) @ replicate (count_list targets x) p)) \<and>
         (length (broadcast h) < broadcastBufferSize \<longrightarrow>
            broadcast h' = broadcast h @ [allExcept u p]) \<and>
         (\<forall>g t'. registryOK g \<and> \<not> panicked g \<and> Client.UserID (heap g c) = u \<longrightarrow>
            (let g' = handleBroadcast t' (allExcept u p) g
             in send (heap g' c) = send (heap g c) \<and>
                \<not> panicked g' \<and>
                (\<forall>v a. (v, a) \<in> set (clients g) \<and> v \<noteq> u \<and>
                        length (send (heap g a)) < clientBufferSize \<longrightarrow>
                          send (heap g' a) = send (heap g a) @ [p]) \<and>
                (\<forall>a. (u, a) \<in> set (clients g) \<longrightarrow> send (heap g' a) = send (heap g a)))) \<and>
         (length (broadcast h) < broadcastBufferSize \<longrightarrow>
            (\<forall>ts t'. length ts = length (broadcast h) \<longrightarrow>
               (let g = workerTurns ts h';
                    g' = broadcastWorker t' g
                in broadcast g = [allExcept u p] \<and> broadcast g' = [] \<and>
                   clients g' = clients h \<and> \<not> panicked g' \<and>
                   send (heap g' c) = send (heap g c) \<and>
                   (\<forall>v a. (v, a) \<in> set (clients h) \<and> v \<noteq> u \<and>
                           length (send (heap g a)) < clientBufferSize \<longrightarrow>
                             send (heap g' a) = send (heap g a) @ [p]) \<and>
                   (\<forall>a. (u, a) \<in> set (clients h) \<longrightarrow> send (heap g' a) = send (heap g a)))))"
    unfolding Let_def u_def[symmetric] p_def[symmetric] ps_def[symmetric]
      targets_def[symmetric] h'_def[symmetric]
    by blast
qed


lemma sets_SAdd [simp]:
  "sets (SAdd r k m) = (sets r)(k := List.insert m (sets r k))"
  by (simp add: SAdd_def)

lemma sets_Expire [simp]: "sets (Expire r k d) = sets r"
  by (simp add: Expire_def)

lemma sets_Del [simp]: "sets (Del r k) = (sets r)(k := [])"
  by (simp add: Del_def)


lemma BroadcastToUser_fields [simp]:
  "clients (BroadcastToUser w d h) = clients h"
  "rooms (BroadcastToUser w d h) = rooms h"
  "heap (BroadcastToUser w d h) = heap h"
  "Hub.redis (BroadcastToUser w d h) = Hub.redis h"
  "panicked (BroadcastToUser w d h) = panicked h"
  by (simp_all add: BroadcastToUser_def)

lemma fold_offer_fields [simp]:
  "clients (fold offer ms h) = clients h"
  "rooms (fold offer ms h) = rooms h"
  "heap (fold offer ms h) = heap h"
  "Hub.redis (fold offer ms h) = Hub.redis h"
  "panicked (fold offer ms h) = panicked h"
  by (induction ms arbitrary: h) simp_all

lemma fold_offer_broadcast:
  "length (broadcast h) + length ms \<le> broadcastBufferSize \<Longrightarrow>
   broadcast (fold offer ms h) = broadcast h @ ms"
  by (induction ms arbitrary: h) (simp_all add: offer_broadcast)

lemma notifyRoles_offer:
  "notifyRoles roomID acc h =
     fold offer (map (\<lambda>ur. toUser (fst ur) (bothReady roomID (snd ur))) (assignRoles 0 acc)) h"
  by (simp add: notifyRoles_def BroadcastToUser_def fold_map comp_def)

lemma notifyOthers_offer:
  "notifyOthers ps self roomID h =
     fold offer (map (\<lambda>w. toUser w (partnerAccepted roomID)) (otherParticipants ps self)) h"
  by (cases "ps ''user1''"; cases "ps ''user2''")
     (simp_all add: notifyOthers_def otherParticipants_def BroadcastToUser_def)

lemma Send_fields [simp]:
  "clients (Send c p h) = clients h"
  "rooms (Send c p h) = rooms h"
  "broadcast (Send c p h) = broadcast h"
  "Hub.redis (Send c p h) = Hub.redis h"
  by (simp_all add: Send_def)


lemma hashes_SAdd [simp]: "hashes (SAdd r k m) = hashes r"
  by (simp add: SAdd_def)

lemma keyExists_Del [simp]: "\<not> keyExists (Del r k) k"
  by (simp add: keyExists_def Del_def)

lemma handleAcceptMatch_unfold:
  fixes h :: Hub and c :: addr and roomID :: string and order :: "string list \<Rightarrow> string list"
  assumes "roomID \<noteq> ''''"
  defines "r2 \<equiv> Expire (SAdd (Hub.redis h) (acceptKey roomID) (Client.UserID (heap h c)))
                   (acceptKey roomID) (2 * Minute)"
  defines "acc \<equiv> order (List.insert (Client.UserID (heap h c)) (sets (Hub.redis h) (acceptKey roomID)))"
  shows "handleAcceptMatch order c (acceptEvent roomID) h =
     (if length acc = 1 then Send c waitingForPartner (h\<lparr>Hub.redis := r2\<rparr>)
      else if length acc \<ge> 2 then
        (fold offer
           (map (\<lambda>ur. toUser (fst ur) (bothReady roomID (snd ur))) (assignRoles 0 acc) @
            map (\<lambda>w. toUser w (partnerAccepted roomID))
              (otherParticipants (HGetAll (Hub.redis h) (''room:'' @ roomID)) (Client.UserID (heap h c))))
           (h\<lparr>Hub.redis := r2\<rparr>))\<lparr>Hub.redis := Del r2 (acceptKey roomID)\<rparr>
      else h\<lparr>Hub.redis := r2\<rparr>)"
  using assms(1)
  by (simp add: handleAcceptMatch_def acceptEvent_def Let_def SMembers_def r2_def acc_def
      notifyRoles_offer notifyOthers_offer HGetAll_def)

lemma handleAcceptMatch_sorted_unfold:
  fixes h :: Hub and c :: addr and roomID :: string and order :: "string list \<Rightarrow> string list"
  assumes "roomID \<noteq> ''''"
  defines "r2 \<equiv> Expire (SAdd (Hub.redis h) (acceptKey_sorted roomID) (Client.UserID (heap h c)))
                   (acceptKey_sorted roomID) (5 * Minute)"
  defines "acc \<equiv> order (List.insert (Client.UserID (heap h c))
                     (sets (Hub.redis h) (acceptKey_sorted roomID)))"
  shows "handleAcceptMatch_sorted order c (acceptEvent roomID) h =
     (if length acc = 1 then
        fold offer
          (map (\<lambda>w. toUser w (partnerAccepted roomID))
             (otherParticipants (HGetAll (Hub.redis h) (''room:'' @ roomID)) (Client.UserID (heap h c))))
          (h\<lparr>Hub.redis := r2\<rparr>)
      else if length acc \<ge> 2 then
        (fold offer
           (map (\<lambda>ur. toUser (fst ur) (bothReady roomID (snd ur))) (assignRoles 0 (sort acc)))
           (h\<lparr>Hub.redis := r2\<rparr>))\<lparr>Hub.redis := Del r2 (acceptKey_sorted roomID)\<rparr>
      else h\<lparr>Hub.redis := r2\<rparr>)"
  using assms(1)
  by (simp add: handleAcceptMatch_sorted_def acceptEvent_def Let_def SMembers_def r2_def acc_def
      notifyRoles_offer notifyOthers_offer HGetAll_def)










lemma UserID_sampleClients:
  "Client.UserID (sampleClients a) = (if a = 1 \<or> a = 2 then userA else if a = 3 then userB else userC)"
  by (simp add: sampleClients_def NewClient_def)

lemma hubABC_clients: "clients hubABC = [(userA, 1), (userB, 3), (userC, 4)]"
  by (simp add: hubABC_def registerClient_clients NewHub_def UserID_sampleClients)

lemma hubABC_UserID:
  "Client.UserID (heap hubABC a) = (if a = 1 \<or> a = 2 then userA else if a = 3 then userB else userC)"
  by (simp add: hubABC_def NewHub_def UserID_sampleClients)

lemma registerClient_panicked:
  "\<not> panicked h \<Longrightarrow> \<not> sendClosed (heap h c) \<Longrightarrow> \<not> panicked (registerClient c h)"
  by (simp add: registerClient_def Let_def Send_def trySend_def split: option.splits)

lemma registerClient_sendClosed [simp]:
  "sendClosed (heap (registerClient c h) a) = sendClosed (heap h a)"
  by (simp add: registerClient_def Let_def Send_def trySend_def split: option.splits)

lemma registerClient_RoomID [simp]:
  "Client.RoomID (heap (registerClient c h) a) = Client.RoomID (heap h a)"
  by (simp add: registerClient_def Let_def Send_def trySend_def split: option.splits)

lemma registerClient_static [simp]:
  "broadcast (registerClient c h) = broadcast h"
  "rooms (registerClient c h) = rooms h"
  "hashes (Hub.redis (registerClient c h)) =
     (hashes (Hub.redis h))(onlineKey (Client.UserID (heap h c)) := [])"
  "sets (Hub.redis (registerClient c h)) =
     (sets (Hub.redis h))(onlineKey (Client.UserID (heap h c)) := [])"
  by (simp_all add: registerClient_def Let_def Send_def Set_def split: option.splits)

lemma registerClient_send:
  "\<not> panicked h \<Longrightarrow> \<not> sendClosed (heap h c) \<Longrightarrow>
   send (heap (registerClient c h) a) =
     (if a = c \<and> length (send (heap h c)) < clientBufferSize then send (heap h c) @ [connected]
      else send (heap h a))"
  by (simp add: registerClient_def Let_def Send_def trySend_def connected_def split: option.splits)

lemma hubABC_open: "\<not> sendClosed (heap hubABC a)"
  by (simp add: hubABC_def NewHub_def sampleClients_def NewClient_def)

lemma hubABC_panicked: "\<not> panicked hubABC"
  unfolding hubABC_def
  by (intro registerClient_panicked) (simp_all add: NewHub_def sampleClients_def NewClient_def)

lemma hubABC_send:
  "send (heap hubABC a) = (if a = 1 \<or> a = 3 \<or> a = 4 then [connected] else [])"
proof -
  let ?h0 = "NewHub sampleRoom sampleClients"
  have p0: "\<not> panicked ?h0" by (simp add: NewHub_def)
  have o0: "\<And>x. \<not> sendClosed (heap ?h0 x)" by (simp add: NewHub_def sampleClients_def NewClient_def)
  have s0: "\<And>x. send (heap ?h0 x) = []" by (simp add: NewHub_def sampleClients_def NewClient_def)
  have p1: "\<not> panicked (registerClient 1 ?h0)" by (rule registerClient_panicked[OF p0 o0])
  have p3: "\<not> panicked (registerClient 3 (registerClient 1 ?h0))"
    by (rule registerClient_panicked[OF p1]) (simp add: o0)
  show ?thesis
    unfolding hubABC_def
    by (simp add: registerClient_send p0 p1 p3 o0 s0 clientBufferSize_def del: One_nat_def)
qed

lemma hubABC_static:
  "broadcast hubABC = []" "rooms hubABC = []"
  by (simp_all add: hubABC_def NewHub_def)

lemma hubABC_sets: "sets (Hub.redis hubABC) k = []"
  by (simp add: hubABC_def NewHub_def sampleRoom_def HSet_def emptyRedis_def)

lemma hubABC_participants:
  "HGetAll (Hub.redis hubABC) ''room:r1'' =
     map_of [(''status'', ''waiting''), (''user1'', userA), (''user2'', userB)]"
  by (simp add: hubABC_def NewHub_def sampleRoom_def HSet_def emptyRedis_def HGetAll_def
      onlineKey_def)

lemma hubABC_RoomID: "Client.RoomID (heap hubABC a) = ''''"
  by (simp add: hubABC_def NewHub_def sampleClients_def NewClient_def)

lemma registryOK_hubABC: "registryOK hubABC"
  by (simp add: registryOK_def hubABC_clients hubABC_UserID hubABC_open)

lemma sampleRoom_participants:
  "HGetAll sampleRoom ''room:r1'' = map_of [(''status'', ''waiting''), (''user1'', userA), (''user2'', userB)]"
  by (simp add: sampleRoom_def HGetAll_def HSet_def emptyRedis_def)

lemma sampleRoom_sets: "sets sampleRoom k = []"
  by (simp add: sampleRoom_def HSet_def emptyRedis_def)

theorem unregister_only_current_witness:
  "(1 :: addr) \<noteq> 2 \<and>
   Client.UserID (heap (NewHub sampleRoom sampleClients) 1) =
     Client.UserID (heap (NewHub sampleRoom sampleClients) 2) \<and>
   map_of (clients (registerClient 2 (registerClient 1 (NewHub sampleRoom sampleClients)))) userA = Some 2 \<and>
   unregisterClient 0 1 (registerClient 2 (registerClient 1 (NewHub sampleRoom sampleClients))) =
     registerClient 2 (registerClient 1 (NewHub sampleRoom sampleClients)) \<and>
   map_of (clients hubABC) (Client.UserID (heap hubABC 2)) \<noteq> Some 2 \<and>
   unregisterClient 0 2 hubABC = hubABC \<and>
   map_of (clients hubABC) (Client.UserID (heap hubABC 3)) = Some 3 \<and>
   clients (unregisterClient 0 3 hubABC) = [(userA, 1), (userC, 4)] \<and>
   map_of (clients (unregisterClient 0 3 hubABC)) userB = None \<and>
   userA \<noteq> Client.UserID (heap hubABC 3) \<and>
   map_of (clients (unregisterClient 0 3 hubABC)) userA = Some 1"
proof -
  let ?h0 = "NewHub sampleRoom sampleClients"
  have u: "Client.UserID (heap ?h0 1) = Client.UserID (heap ?h0 2)"
    "Client.UserID (heap ?h0 2) = userA"
    by (simp_all add: NewHub_def UserID_sampleClients)
  have n: "(1 :: addr) \<noteq> 2" by simp
  have a: "map_of (clients (registerClient 2 (registerClient 1 ?h0))) userA = Some 2 \<and>
           unregisterClient 0 1 (registerClient 2 (registerClient 1 ?h0)) =
             registerClient 2 (registerClient 1 ?h0)"
    using unregister_only_current[of 0 1 ?h0 1 2] n u by simp
  have b2: "map_of (clients hubABC) (Client.UserID (heap hubABC 2)) \<noteq> Some 2"
    by (simp add: hubABC_clients hubABC_UserID)
  have b: "unregisterClient 0 2 hubABC = hubABC"
    using unregister_only_current[of 0 2 hubABC 1 2] b2 by simp
  have c3: "map_of (clients hubABC) (Client.UserID (heap hubABC 3)) = Some 3"
    by (simp add: hubABC_clients hubABC_UserID)
  have ua: "userA \<noteq> Client.UserID (heap hubABC 3)" by (simp add: hubABC_UserID)
  have c: "clients (unregisterClient 0 3 hubABC) = [(userA, 1), (userC, 4)] \<and>
           map_of (clients (unregisterClient 0 3 hubABC)) userB = None \<and>
           map_of (clients (unregisterClient 0 3 hubABC)) userA = Some 1"
    using unregister_only_current[of 0 3 hubABC 1 2] c3 ua
    by (simp add: hubABC_clients hubABC_UserID)
  from n u a b2 b c3 ua c show ?thesis by simp
qed


lemma hubABC_roomParticipants:
  "fst (getRoomParticipants t ''r1'' hubABC) =
     map_of [(''status'', ''waiting''), (''user1'', userA), (''user2'', userB)]"
  by (simp add: getRoomParticipants_def hubABC_static hubABC_participants Let_def)

lemma hubABC_roomTargets:
  "roomTargets (fst (getRoomParticipants t ''r1'' hubABC)) (clients hubABC) userA = [3]"
  by (simp add: hubABC_roomParticipants roomTargets_def slotTarget_def hubABC_clients)

theorem relayWebRTC_delivers_witness:
  "registryOK hubABC \<and> \<not> panicked hubABC \<and> To sampleOffer \<noteq> '''' \<and>
   Client.UserID (heap hubABC 1) = userA \<and>
   roomTargets (fst (getRoomParticipants 0 ''r1'' hubABC)) (clients hubABC) userA = [3] \<and>
   length (send (heap hubABC 3)) + count_list [3 :: addr] 3 \<le> clientBufferSize \<and>
   length (broadcast hubABC) < broadcastBufferSize \<and>
   send (heap (relayWebRTC 0 1 sampleOffer hubABC) 3) =
     [connected, webrtcPayload userA sampleOffer] \<and>
   send (heap (relayWebRTC 0 1 sampleOffer hubABC) 1) = [connected] \<and>
   send (heap (relayWebRTC 0 1 sampleOffer hubABC) 4) = [connected] \<and>
   broadcast (relayWebRTC 0 1 sampleOffer hubABC) =
     [allExcept userA (webrtcPayload userA sampleOffer)] \<and>
   (userC, 4) \<in> set (clients hubABC) \<and> userC \<noteq> userA \<and>
   length (send (heap hubABC 4)) < clientBufferSize \<and>
   send (heap (handleBroadcast 1 (allExcept userA (webrtcPayload userA sampleOffer)) hubABC) 4) =
     [connected, webrtcPayload userA sampleOffer] \<and>
   (userA, 1) \<in> set (clients hubABC) \<and>
   send (heap (handleBroadcast 1 (allExcept userA (webrtcPayload userA sampleOffer)) hubABC) 1) =
     [connected] \<and>
   length ([] :: Time list) = length (broadcast hubABC) \<and>
   (userB, 3) \<in> set (clients hubABC) \<and> userB \<noteq> userA \<and>
   length (send (heap (workerTurns [] (relayWebRTC 0 1 sampleOffer hubABC)) 3)) < clientBufferSize \<and>
   length (send (heap (workerTurns [] (relayWebRTC 0 1 sampleOffer hubABC)) 4)) < clientBufferSize \<and>
   broadcast (broadcastWorker 1 (relayWebRTC 0 1 sampleOffer hubABC)) = [] \<and>
   send (heap (broadcastWorker 1 (relayWebRTC 0 1 sampleOffer hubABC)) 3) =
     [connected, webrtcPayload userA sampleOffer, webrtcPayload userA sampleOffer] \<and>
   send (heap (broadcastWorker 1 (relayWebRTC 0 1 sampleOffer hubABC)) 4) =
     [connected, webrtcPayload userA sampleOffer] \<and>
   send (heap (broadcastWorker 1 (relayWebRTC 0 1 sampleOffer hubABC)) 1) = [connected]"
proof -
  let ?p = "webrtcPayload userA sampleOffer"
  have dst: "To sampleOffer = ''r1''" by (simp add: sampleOffer_def)
  have h1: "registryOK hubABC" by (rule registryOK_hubABC)
  have h2: "\<not> panicked hubABC" by (rule hubABC_panicked)
  have h3: "To sampleOffer \<noteq> ''''" by (simp add: dst)
  have u: "Client.UserID (heap hubABC 1) = userA" by (simp add: hubABC_UserID)
  have tg: "roomTargets (fst (getRoomParticipants 0 (To sampleOffer) hubABC)) (clients hubABC) userA = [3]"
    unfolding dst by (rule hubABC_roomTargets)
  have cap: "\<forall>a\<in>set [3]. length (send (heap hubABC a)) + count_list [3] a \<le> clientBufferSize"
    by (simp add: hubABC_send clientBufferSize_def)
  have bc: "length (broadcast hubABC) < broadcastBufferSize"
    by (simp add: hubABC_static broadcastBufferSize_def)
  have m4: "(userC, 4) \<in> set (clients hubABC)" "userC \<noteq> userA"
    "length (send (heap hubABC 4)) < clientBufferSize"
    by (simp_all add: hubABC_clients hubABC_send clientBufferSize_def)
  have m1: "(userA, 1) \<in> set (clients hubABC)" by (simp add: hubABC_clients)
  note main = relayWebRTC_delivers[of hubABC sampleOffer 1 0, unfolded Let_def u tg,
      rule_format, OF conjI[OF h1 conjI[OF h2 h3]], THEN conjunct2, THEN conjunct2]
  have all: "\<forall>x. send (heap (relayWebRTC 0 1 sampleOffer hubABC) x) =
               send (heap hubABC x) @ replicate (count_list [3] x) ?p"
    using main[THEN conjunct2, THEN conjunct2, THEN conjunct2, THEN conjunct1] cap by blast
  have s3: "send (heap (relayWebRTC 0 1 sampleOffer hubABC) 3) = [connected, ?p]"
    and s1: "send (heap (relayWebRTC 0 1 sampleOffer hubABC) 1) = [connected]"
    and s4: "send (heap (relayWebRTC 0 1 sampleOffer hubABC) 4) = [connected]"
    using all by (simp_all add: hubABC_send)
  have b: "broadcast (relayWebRTC 0 1 sampleOffer hubABC) = [allExcept userA ?p]"
    using main[THEN conjunct2, THEN conjunct2, THEN conjunct2, THEN conjunct2, THEN conjunct1] bc
    by (simp add: hubABC_static)
  note g = main[THEN conjunct2, THEN conjunct2, THEN conjunct2, THEN conjunct2, THEN conjunct2,
      THEN conjunct1, rule_format, of hubABC 1, OF conjI[OF h1 conjI[OF h2 u]]]
  have len: "length ([] :: Time list) = length (broadcast hubABC)" by (simp add: hubABC_static)
  note w = main[THEN conjunct2, THEN conjunct2, THEN conjunct2, THEN conjunct2, THEN conjunct2,
      THEN conjunct2, rule_format, OF bc len, of 1, unfolded Let_def]
  have m3: "(userB, 3) \<in> set (clients hubABC)" "userB \<noteq> userA"
    by (simp_all add: hubABC_clients)
  have r3: "length (send (heap (workerTurns [] (relayWebRTC 0 1 sampleOffer hubABC)) 3)) < clientBufferSize"
    and r4: "length (send (heap (workerTurns [] (relayWebRTC 0 1 sampleOffer hubABC)) 4)) < clientBufferSize"
    using s3 s4 by (simp_all add: clientBufferSize_def)
  have w0: "broadcast (broadcastWorker 1 (relayWebRTC 0 1 sampleOffer hubABC)) = []"
    using w[THEN conjunct2, THEN conjunct1] by simp
  note ws = w[THEN conjunct2, THEN conjunct2, THEN conjunct2, THEN conjunct2]
  have w3: "send (heap (broadcastWorker 1 (relayWebRTC 0 1 sampleOffer hubABC)) 3) = [connected, ?p, ?p]"
    using ws[THEN conjunct2, THEN conjunct1, rule_format, of userB 3] m3 r3 s3 by simp
  have w4: "send (heap (broadcastWorker 1 (relayWebRTC 0 1 sampleOffer hubABC)) 4) = [connected, ?p]"
    using ws[THEN conjunct2, THEN conjunct1, rule_format, of userC 4] m4(1,2) r4 s4 by simp
  have w1: "send (heap (broadcastWorker 1 (relayWebRTC 0 1 sampleOffer hubABC)) 1) = [connected]"
    using ws[THEN conjunct2, THEN conjunct2, rule_format, of 1] m1 s1 by simp
  have g4: "send (heap (handleBroadcast 1 (allExcept userA ?p) hubABC) 4) = [connected, ?p]"
    using g[THEN conjunct2, THEN conjunct2, THEN conjunct1, rule_format, of userC 4] m4
    by (simp add: hubABC_send)
  have g1: "send (heap (handleBroadcast 1 (allExcept userA ?p) hubABC) 1) = [connected]"
    using g[THEN conjunct2, THEN conjunct2, THEN conjunct2, rule_format, of 1] m1
    by (simp add: hubABC_send)
  have cap3: "length (send (heap hubABC 3)) + count_list [3 :: addr] 3 \<le> clientBufferSize"
    using cap by simp
  from h1 h2 h3 u tg cap3 bc s3 s1 s4 b m4 g4 m1 g1 len m3 r3 r4 w0 w3 w4 w1 show ?thesis
    unfolding dst by (simp)
qed

lemma registryOK_registerClient:
  assumes "registryOK h" "\<not> sendClosed (heap h c)"
  shows "registryOK (registerClient c h)"
proof -
  have d: "distinct (map fst (clients (registerClient c h)))"
    using assms(1) by (simp add: registerClient_clients registryOK_def distinct_update)
  have "\<And>entry. entry \<in> set (clients (registerClient c h)) \<Longrightarrow>
          Client.UserID (heap h (snd entry)) = fst entry \<and> \<not> sendClosed (heap h (snd entry))"
  proof -
    fix entry assume "entry \<in> set (clients (registerClient c h))"
    then have "(fst entry, snd entry) \<in> set (AList.update (Client.UserID (heap h c)) c (clients h))"
      by (simp add: registerClient_clients)
    moreover have "distinct (map fst (AList.update (Client.UserID (heap h c)) c (clients h)))"
      using assms(1) by (simp add: registryOK_def distinct_update)
    ultimately have "map_of (AList.update (Client.UserID (heap h c)) c (clients h)) (fst entry) =
        Some (snd entry)"
      by (simp only: map_of_eq_Some_iff)
    then have "entry = (Client.UserID (heap h c), c) \<or> map_of (clients h) (fst entry) = Some (snd entry)"
      by (cases entry) (auto simp: update_conv' split: if_splits)
    then have "entry = (Client.UserID (heap h c), c) \<or> entry \<in> set (clients h)"
      by (cases entry) (auto dest: map_of_SomeD)
    with assms show "Client.UserID (heap h (snd entry)) = fst entry \<and> \<not> sendClosed (heap h (snd entry))"
      by (auto simp: registryOK_def list_all_iff)
  qed
  with d show ?thesis by (simp add: registryOK_def list_all_iff)
qed


lemma length_otherParticipants: "length (otherParticipants ps self) \<le> 2"
  by (cases "ps ''user1''"; cases "ps ''user2''") (simp_all add: otherParticipants_def)

lemma set_otherParticipants:
  "set (otherParticipants ps self) =
     {w. \<exists>k. (k = ''user1'' \<or> k = ''user2'') \<and> ps k = Some w \<and> w \<noteq> self}"
  by (cases "ps ''user1''"; cases "ps ''user2''") (auto simp: otherParticipants_def)






lemma registryOK_cong:
  "heap g = heap h \<Longrightarrow> clients g = clients h \<Longrightarrow> registryOK g = registryOK h"
  by (simp add: registryOK_def)





lemma handleAcceptMatch_first:
  fixes h :: Hub and c :: addr and roomID :: string and order :: "string list \<Rightarrow> string list"
  assumes "roomID \<noteq> ''''" "\<forall>xs. length (order xs) = length xs"
    "length (List.insert (Client.UserID (heap h c)) (sets (Hub.redis h) (acceptKey roomID))) = 1"
  shows "handleAcceptMatch order c (acceptEvent roomID) h =
           Send c waitingForPartner
             (h\<lparr>Hub.redis := Expire (SAdd (Hub.redis h) (acceptKey roomID) (Client.UserID (heap h c)))
                   (acceptKey roomID) (2 * Minute)\<rparr>)"
  using assms(2,3) by (simp add: handleAcceptMatch_unfold[OF assms(1)])

lemma handleAcceptMatch_sorted_first:
  fixes h :: Hub and c :: addr and roomID :: string and order :: "string list \<Rightarrow> string list"
  assumes "roomID \<noteq> ''''" "\<forall>xs. length (order xs) = length xs"
    "length (List.insert (Client.UserID (heap h c)) (sets (Hub.redis h) (acceptKey_sorted roomID))) = 1"
  shows "handleAcceptMatch_sorted order c (acceptEvent roomID) h =
           fold offer
             (map (\<lambda>w. toUser w (partnerAccepted roomID))
                (otherParticipants (HGetAll (Hub.redis h) (''room:'' @ roomID))
                   (Client.UserID (heap h c))))
             (h\<lparr>Hub.redis := Expire (SAdd (Hub.redis h) (acceptKey_sorted roomID)
                   (Client.UserID (heap h c))) (acceptKey_sorted roomID) (5 * Minute)\<rparr>)"
  using assms(2,3) by (simp add: handleAcceptMatch_sorted_unfold[OF assms(1)])

lemma hubABC_first:
  "handleAcceptMatch order 1 (acceptEvent ''r1'') hubABC =
     Send 1 waitingForPartner
       (hubABC\<lparr>Hub.redis := Expire (SAdd (Hub.redis hubABC) (acceptKey ''r1'') userA)
                   (acceptKey ''r1'') (2 * Minute)\<rparr>)"
  if "\<forall>xs. length (order xs) = length xs"
  using handleAcceptMatch_first[of "''r1''" order hubABC 1] that
  by (simp add: hubABC_sets hubABC_UserID)

lemma hubABC_sorted_first:
  "handleAcceptMatch_sorted order 1 (acceptEvent ''r1'') hubABC =
     fold offer [toUser userB (partnerAccepted ''r1'')]
       (hubABC\<lparr>Hub.redis := Expire (SAdd (Hub.redis hubABC) (acceptKey_sorted ''r1'') userA)
                   (acceptKey_sorted ''r1'') (5 * Minute)\<rparr>)"
  if "\<forall>xs. length (order xs) = length xs"
  using handleAcceptMatch_sorted_first[of "''r1''" order hubABC 1] that
  by (simp add: hubABC_sets hubABC_UserID hubABC_participants otherParticipants_def)




lemma oneAccepted_eq:
  "oneAccepted =
     Send 1 waitingForPartner
       (hubABC\<lparr>Hub.redis := Expire (SAdd (Hub.redis hubABC) (acceptKey ''r1'') userA)
                   (acceptKey ''r1'') (2 * Minute)\<rparr>)"
  using hubABC_first[of rev] by (simp add: oneAccepted_def handleAccept_def)

lemma oneAccepted_fields:
  "clients oneAccepted = [(userA, 1), (userB, 3), (userC, 4)]"
  "broadcast oneAccepted = []"
  "Client.UserID (heap oneAccepted a) =
     (if a = 1 \<or> a = 2 then userA else if a = 3 then userB else userC)"
  "\<not> sendClosed (heap oneAccepted a)"
  "sets (Hub.redis oneAccepted) k = (if k = acceptKey ''r1'' then [userA] else [])"
  "HGetAll (Hub.redis oneAccepted) ''room:r1'' =
     map_of [(''status'', ''waiting''), (''user1'', userA), (''user2'', userB)]"
  by (simp_all add: oneAccepted_eq Send_def hubABC_clients hubABC_static hubABC_UserID hubABC_open
      hubABC_sets HGetAll_def hubABC_participants[unfolded HGetAll_def])


lemma oneAccepted_send:
  "send (heap oneAccepted a) =
     (if a = 1 then [connected, waitingForPartner] else if a = 3 \<or> a = 4 then [connected] else [])"
  using hubABC_panicked hubABC_open[of 1] hubABC_send[of a] hubABC_send[of 1]
  by (simp add: oneAccepted_eq Send_def trySend_def Let_def clientBufferSize_def)





lemma accept_first_arrival:
  fixes h :: Hub and c :: addr and roomID :: string and order :: "string list \<Rightarrow> string list"
  assumes perm: "\<forall>xs. length (order xs) = length xs" and ne: "roomID \<noteq> ''''"
    and one: "length (sets (SAdd (Hub.redis h) (acceptKey roomID) (Client.UserID (heap h c)))
                 (acceptKey roomID)) = 1"
  defines "h1 \<equiv> handleAcceptMatch order c (acceptEvent roomID) h"
  shows "broadcast h1 = broadcast h" "clients h1 = clients h"
    "\<forall>x. x \<noteq> c \<longrightarrow> heap h1 x = heap h x"
    "sets (Hub.redis h1) (acceptKey roomID) = [Client.UserID (heap h c)]"
    "\<not> panicked h \<and> \<not> sendClosed (heap h c) \<and> length (send (heap h c)) < clientBufferSize \<longrightarrow>
       send (heap h1 c) = send (heap h c) @ [waitingForPartner]"
proof -
  let ?self = "Client.UserID (heap h c)"
  have one': "length (List.insert ?self (sets (Hub.redis h) (acceptKey roomID))) = 1"
    using one by simp
  have eq: "h1 = Send c waitingForPartner
             (h\<lparr>Hub.redis := Expire (SAdd (Hub.redis h) (acceptKey roomID) ?self)
                   (acceptKey roomID) (2 * Minute)\<rparr>)"
    unfolding h1_def by (rule handleAcceptMatch_first[OF ne perm one'])
  have ins: "List.insert ?self (sets (Hub.redis h) (acceptKey roomID)) = [?self]"
    using one' by (cases "sets (Hub.redis h) (acceptKey roomID)")
      (auto simp: List.insert_def split: if_splits)
  show "broadcast h1 = broadcast h" "clients h1 = clients h" by (simp_all add: eq)
  show "\<forall>x. x \<noteq> c \<longrightarrow> heap h1 x = heap h x"
    by (simp add: eq Send_def trySend_other)
  show "sets (Hub.redis h1) (acceptKey roomID) = [?self]"
    using ins by (simp add: eq)
  show "\<not> panicked h \<and> \<not> sendClosed (heap h c) \<and> length (send (heap h c)) < clientBufferSize \<longrightarrow>
       send (heap h1 c) = send (heap h c) @ [waitingForPartner]"
    by (simp add: eq Send_def trySend_send)
qed

lemma accept_first_sorted:
  fixes h :: Hub and c :: addr and roomID :: string and order :: "string list \<Rightarrow> string list"
  assumes perm: "\<forall>xs. length (order xs) = length xs" and ne: "roomID \<noteq> ''''"
    and one: "length (sets (SAdd (Hub.redis h) (acceptKey_sorted roomID) (Client.UserID (heap h c)))
                 (acceptKey_sorted roomID)) = 1"
  defines "h2 \<equiv> handleAcceptMatch_sorted order c (acceptEvent roomID) h"
  defines "others \<equiv> otherParticipants (HGetAll (Hub.redis h) (''room:'' @ roomID))
                       (Client.UserID (heap h c))"
  shows "heap h2 = heap h" "clients h2 = clients h" "panicked h2 = panicked h"
    "sets (Hub.redis h2) (acceptKey_sorted roomID) = [Client.UserID (heap h c)]"
    "length (broadcast h) + 2 \<le> broadcastBufferSize \<longrightarrow>
       broadcast h2 = broadcast h @ map (\<lambda>w. toUser w (partnerAccepted roomID)) others"
proof -
  let ?self = "Client.UserID (heap h c)"
  have one': "length (List.insert ?self (sets (Hub.redis h) (acceptKey_sorted roomID))) = 1"
    using one by simp
  have eq: "h2 = fold offer (map (\<lambda>w. toUser w (partnerAccepted roomID)) others)
             (h\<lparr>Hub.redis := Expire (SAdd (Hub.redis h) (acceptKey_sorted roomID) ?self)
                   (acceptKey_sorted roomID) (5 * Minute)\<rparr>)"
    unfolding h2_def others_def by (rule handleAcceptMatch_sorted_first[OF ne perm one'])
  have ins: "List.insert ?self (sets (Hub.redis h) (acceptKey_sorted roomID)) = [?self]"
    using one' by (cases "sets (Hub.redis h) (acceptKey_sorted roomID)")
      (auto simp: List.insert_def split: if_splits)
  show "heap h2 = heap h" "clients h2 = clients h" "panicked h2 = panicked h"
    by (simp_all add: eq)
  show "sets (Hub.redis h2) (acceptKey_sorted roomID) = [?self]"
    using ins by (simp add: eq)
  have le: "length others \<le> 2" unfolding others_def by (rule length_otherParticipants)
  show "length (broadcast h) + 2 \<le> broadcastBufferSize \<longrightarrow>
       broadcast h2 = broadcast h @ map (\<lambda>w. toUser w (partnerAccepted roomID)) others"
  proof
    assume cap: "length (broadcast h) + 2 \<le> broadcastBufferSize"
    show "broadcast h2 = broadcast h @ map (\<lambda>w. toUser w (partnerAccepted roomID)) others"
      unfolding eq using cap le by (subst fold_offer_broadcast) simp_all
  qed
qed


lemma accept_sorted_workers:
  fixes h :: Hub and c :: addr and roomID :: string and order :: "string list \<Rightarrow> string list"
    and ts :: "Time list" and t1 t2 :: Time
  assumes perm: "\<forall>xs. length (order xs) = length xs" and ne: "roomID \<noteq> ''''"
    and one: "length (sets (SAdd (Hub.redis h) (acceptKey_sorted roomID) (Client.UserID (heap h c)))
                 (acceptKey_sorted roomID)) = 1"
    and cap: "length (broadcast h) + 2 \<le> broadcastBufferSize"
    and ok: "registryOK h" and np: "\<not> panicked h"
    and len: "length ts = length (broadcast h)"
  defines "h2 \<equiv> handleAcceptMatch_sorted order c (acceptEvent roomID) h"
  defines "others \<equiv> otherParticipants (HGetAll (Hub.redis h) (''room:'' @ roomID))
                       (Client.UserID (heap h c))"
  assumes nonempty: "'''' \<notin> set others"
  shows "broadcast (workerTurns ts h2) = map (\<lambda>w. toUser w (partnerAccepted roomID)) others"
    and "\<forall>w rest. others = w # rest \<longrightarrow>
           (\<forall>x. send (heap (broadcastWorker t1 (workerTurns ts h2)) x) =
              (if map_of (clients h) w = Some x \<and>
                  length (send (heap (workerTurns ts h2) x)) < clientBufferSize
               then send (heap (workerTurns ts h2) x) @ [partnerAccepted roomID]
               else send (heap (workerTurns ts h2) x)))"
    and "\<forall>w1 w2. others = [w1, w2] \<longrightarrow>
           (\<forall>x. send (heap (broadcastWorker t2 (broadcastWorker t1 (workerTurns ts h2))) x) =
              (if map_of (clients h) w2 = Some x \<and>
                  length (send (heap (broadcastWorker t1 (workerTurns ts h2)) x)) < clientBufferSize
               then send (heap (broadcastWorker t1 (workerTurns ts h2)) x) @ [partnerAccepted roomID]
               else send (heap (broadcastWorker t1 (workerTurns ts h2)) x)))"
proof -
  note fr = accept_first_sorted[OF perm ne one, folded h2_def others_def]
  define g0 where "g0 = workerTurns ts h2"
  have ok2: "registryOK h2" using ok registryOK_cong[OF fr(1,2)] by simp
  have np2: "\<not> panicked h2" using np fr(3) by simp
  have b2: "broadcast h2 = broadcast h @ map (\<lambda>w. toUser w (partnerAccepted roomID)) others"
    using fr(5) cap by simp
  show b0: "broadcast (workerTurns ts h2) = map (\<lambda>w. toUser w (partnerAccepted roomID)) others"
    using len by (simp add: b2)
  have ok0: "registryOK g0" using ok2 by (simp add: g0_def)
  have np0: "\<not> panicked g0" using workerTurns_panicked[OF ok2, of ts] np2 by (simp add: g0_def)
  have cl0: "clients g0 = clients h" by (simp add: g0_def fr(2))
  have first: "send (heap (broadcastWorker t1 g0) x) =
              (if map_of (clients h) w = Some x \<and> length (send (heap g0 x)) < clientBufferSize
               then send (heap g0 x) @ [partnerAccepted roomID] else send (heap g0 x))"
    if o: "others = w # rest" for w rest x
  proof -
    have w: "w \<noteq> ''''" using nonempty o by auto
    have b: "broadcast g0 = toUser w (partnerAccepted roomID) #
               map (\<lambda>w. toUser w (partnerAccepted roomID)) rest"
      using b0 o by (simp add: g0_def)
    from toUser_worker(1)[OF ok0 np0 w b, of t1 x] show ?thesis by (simp add: cl0)
  qed
  then show "\<forall>w rest. others = w # rest \<longrightarrow>
           (\<forall>x. send (heap (broadcastWorker t1 (workerTurns ts h2)) x) =
              (if map_of (clients h) w = Some x \<and>
                  length (send (heap (workerTurns ts h2) x)) < clientBufferSize
               then send (heap (workerTurns ts h2) x) @ [partnerAccepted roomID]
               else send (heap (workerTurns ts h2) x)))"
    unfolding g0_def by blast
  have second: "send (heap (broadcastWorker t2 (broadcastWorker t1 g0)) x) =
              (if map_of (clients h) w2 = Some x \<and>
                  length (send (heap (broadcastWorker t1 g0) x)) < clientBufferSize
               then send (heap (broadcastWorker t1 g0) x) @ [partnerAccepted roomID]
               else send (heap (broadcastWorker t1 g0) x))"
    if o: "others = [w1, w2]" for w1 w2 x
  proof -
    define g1 where "g1 = broadcastWorker t1 g0"
    have w: "w2 \<noteq> ''''" using nonempty o by auto
    have "broadcast g0 = [toUser w1 (partnerAccepted roomID), toUser w2 (partnerAccepted roomID)]"
      using b0 o by (simp add: g0_def)
    then have b: "broadcast g1 = toUser w2 (partnerAccepted roomID) # []"
      by (simp add: g1_def)
    have ok1: "registryOK g1" using ok0 by (simp add: g1_def)
    have np1: "\<not> panicked g1" using broadcastWorker_panicked[OF ok0, of t1] np0 by (simp add: g1_def)
    have cl1: "clients g1 = clients h" by (simp add: g1_def cl0)
    from toUser_worker(1)[OF ok1 np1 w b, of t2 x] show ?thesis by (simp add: cl0 g1_def)
  qed
  then show "\<forall>w1 w2. others = [w1, w2] \<longrightarrow>
           (\<forall>x. send (heap (broadcastWorker t2 (broadcastWorker t1 (workerTurns ts h2))) x) =
              (if map_of (clients h) w2 = Some x \<and>
                  length (send (heap (broadcastWorker t1 (workerTurns ts h2)) x)) < clientBufferSize
               then send (heap (broadcastWorker t1 (workerTurns ts h2)) x) @ [partnerAccepted roomID]
               else send (heap (broadcastWorker t1 (workerTurns ts h2)) x)))"
    unfolding g0_def by blast
qed

text \<open>
  Claim C4, as the code has it. When an accept event of user \<open>U\<close> for a room brings the room's
  Acceptance Set to exactly one member, each copy of the handler notifies one side only.
  The first copy (\<^verbatim>\<open>internal/websocket/client.go\<close>) puts the \<^verbatim>\<open>partner_accepted\<close> payload with
  the message \<^verbatim>\<open>Waiting for partner to accept...\<close> on the outbound channel of the accepting
  connection (when that is open and has room); it puts nothing on the broadcast channel and
  changes no other connection, so the other participant is not told. The second copy
  (\<^verbatim>\<open>unnamed/part_003\<close>) puts on the broadcast channel one \<^verbatim>\<open>partner_accepted\<close> message with
  the room id for each user in the slots \<^verbatim>\<open>user1\<close> and \<^verbatim>\<open>user2\<close> of the room's hash other than
  \<open>U\<close>, read from the store, and the workers deliver them to the connections registered
  for these users; it sends nothing to the accepting connection.
\<close>

theorem accept_first_notice:
  "(\<forall>xs. length (order xs) = length xs) \<and> roomID \<noteq> '''' \<longrightarrow>
   (let self = Client.UserID (heap h c);
        others = otherParticipants (HGetAll (Hub.redis h) (''room:'' @ roomID)) self;
        h1 = handleAcceptMatch order c (acceptEvent roomID) h;
        h2 = handleAcceptMatch_sorted order c (acceptEvent roomID) h
    in set others =
         {w. \<exists>k. (k = ''user1'' \<or> k = ''user2'') \<and>
                 HGetAll (Hub.redis h) (''room:'' @ roomID) k = Some w \<and> w \<noteq> self} \<and>
       (length (sets (SAdd (Hub.redis h) (acceptKey roomID) self) (acceptKey roomID)) = 1 \<longrightarrow>
          sets (Hub.redis h1) (acceptKey roomID) = [self] \<and>
          broadcast h1 = broadcast h \<and> clients h1 = clients h \<and>
          (\<forall>x. x \<noteq> c \<longrightarrow> heap h1 x = heap h x) \<and>
          (\<not> panicked h \<and> \<not> sendClosed (heap h c) \<and>
           length (send (heap h c)) < clientBufferSize \<longrightarrow>
             send (heap h1 c) = send (heap h c) @ [waitingForPartner])) \<and>
       (length (sets (SAdd (Hub.redis h) (acceptKey_sorted roomID) self)
                  (acceptKey_sorted roomID)) = 1 \<longrightarrow>
          sets (Hub.redis h2) (acceptKey_sorted roomID) = [self] \<and>
          heap h2 = heap h \<and> clients h2 = clients h \<and>
          (length (broadcast h) + 2 \<le> broadcastBufferSize \<longrightarrow>
             broadcast h2 =
               broadcast h @ map (\<lambda>w. toUser w (partnerAccepted roomID)) others \<and>
             (registryOK h \<and> \<not> panicked h \<and> '''' \<notin> set others \<longrightarrow>
                (\<forall>ts t1 t2. length ts = length (broadcast h) \<longrightarrow>
                   broadcast (workerTurns ts h2) =
                     map (\<lambda>w. toUser w (partnerAccepted roomID)) others \<and>
                   (\<forall>w rest. others = w # rest \<longrightarrow>
                      (\<forall>x. send (heap (broadcastWorker t1 (workerTurns ts h2)) x) =
                         (if map_of (clients h) w = Some x \<and>
                             length (send (heap (workerTurns ts h2) x)) < clientBufferSize
                          then send (heap (workerTurns ts h2) x) @ [partnerAccepted roomID]
                          else send (heap (workerTurns ts h2) x)))) \<and>
                   (\<forall>w1 w2. others = [w1, w2] \<longrightarrow>
                      (\<forall>x. send (heap (broadcastWorker t2
                                    (broadcastWorker t1 (workerTurns ts h2))) x) =
                         (if map_of (clients h) w2 = Some x \<and>
                             length (send (heap (broadcastWorker t1 (workerTurns ts h2)) x))
                               < clientBufferSize
                          then send (heap (broadcastWorker t1 (workerTurns ts h2)) x) @
                               [partnerAccepted roomID]
                          else send (heap (broadcastWorker t1 (workerTurns ts h2)) x)))))))))"
proof (intro impI)
  assume a: "(\<forall>xs. length (order xs) = length xs) \<and> roomID \<noteq> ''''"
  then have perm: "\<forall>xs. length (order xs) = length xs" and ne: "roomID \<noteq> ''''" by auto
  note s = set_otherParticipants
  note f1 = accept_first_arrival[OF perm ne]
  note f2 = accept_first_sorted[OF perm ne]
  note w = accept_sorted_workers[OF perm ne]
  show "let self = Client.UserID (heap h c);
        others = otherParticipants (HGetAll (Hub.redis h) (''room:'' @ roomID)) self;
        h1 = handleAcceptMatch order c (acceptEvent roomID) h;
        h2 = handleAcceptMatch_sorted order c (acceptEvent roomID) h
    in set others =
         {w. \<exists>k. (k = ''user1'' \<or> k = ''user2'') \<and>
                 HGetAll (Hub.redis h) (''room:'' @ roomID) k = Some w \<and> w \<noteq> self} \<and>
       (length (sets (SAdd (Hub.redis h) (acceptKey roomID) self) (acceptKey roomID)) = 1 \<longrightarrow>
          sets (Hub.redis h1) (acceptKey roomID) = [self] \<and>
          broadcast h1 = broadcast h \<and> clients h1 = clients h \<and>
          (\<forall>x. x \<noteq> c \<longrightarrow> heap h1 x = heap h x) \<and>
          (\<not> panicked h \<and> \<not> sendClosed (heap h c) \<and>
           length (send (heap h c)) < clientBufferSize \<longrightarrow>
             send (heap h1 c) = send (heap h c) @ [waitingForPartner])) \<and>
       (length (sets (SAdd (Hub.redis h) (acceptKey_sorted roomID) self)
                  (acceptKey_sorted roomID)) = 1 \<longrightarrow>
          sets (Hub.redis h2) (acceptKey_sorted roomID) = [self] \<and>
          heap h2 = heap h \<and> clients h2 = clients h \<and>
          (length (broadcast h) + 2 \<le> broadcastBufferSize \<longrightarrow>
             broadcast h2 =
               broadcast h @ map (\<lambda>w. toUser w (partnerAccepted roomID)) others \<and>
             (registryOK h \<and> \<not> panicked h \<and> '''' \<notin> set others \<longrightarrow>
                (\<forall>ts t1 t2. length ts = length (broadcast h) \<longrightarrow>
                   broadcast (workerTurns ts h2) =
                     map (\<lambda>w. toUser w (partnerAccepted roomID)) others \<and>
                   (\<forall>w rest. others = w # rest \<longrightarrow>
                      (\<forall>x. send (heap (broadcastWorker t1 (workerTurns ts h2)) x) =
                         (if map_of (clients h) w = Some x \<and>
                             length (send (heap (workerTurns ts h2) x)) < clientBufferSize
                          then send (heap (workerTurns ts h2) x) @ [partnerAccepted roomID]
                          else send (heap (workerTurns ts h2) x)))) \<and>
                   (\<forall>w1 w2. others = [w1, w2] \<longrightarrow>
                      (\<forall>x. send (heap (broadcastWorker t2
                                    (broadcastWorker t1 (workerTurns ts h2))) x) =
                         (if map_of (clients h) w2 = Some x \<and>
                             length (send (heap (broadcastWorker t1 (workerTurns ts h2)) x))
                               < clientBufferSize
                          then send (heap (broadcastWorker t1 (workerTurns ts h2)) x) @
                               [partnerAccepted roomID]
                          else send (heap (broadcastWorker t1 (workerTurns ts h2)) x))))))))"
    unfolding Let_def
  proof (intro conjI impI allI, goal_cases)
    case 1 show ?case by (rule s)
  next
    case 2 then show ?case by (rule f1(4))
  next
    case 3 then show ?case by (rule f1(1))
  next
    case 4 then show ?case by (rule f1(2))
  next
    case (5 x) from f1(3)[OF 5(1)] 5(2) show ?case by blast
  next
    case 6 from f1(5)[OF 6(1)] 6(2) show ?case by blast
  next
    case 7 then show ?case by (rule f2(4))
  next
    case 8 then show ?case by (rule f2(1))
  next
    case 9 then show ?case by (rule f2(2))
  next
    case 10 from f2(5)[OF 10(1)] 10(2) show ?case by blast
  next
    case (11 ts t1 t2)
    then have p: "registryOK h" "\<not> panicked h"
      "'''' \<notin> set (otherParticipants (HGetAll (Hub.redis h) (''room:'' @ roomID))
                      (Client.UserID (heap h c)))" by auto
    show ?case by (rule w(1)[OF 11(1,2) p(1,2) 11(4) p(3)])
  next
    case (12 ts t1 t2 w' rest x)
    then have p: "registryOK h" "\<not> panicked h"
      "'''' \<notin> set (otherParticipants (HGetAll (Hub.redis h) (''room:'' @ roomID))
                      (Client.UserID (heap h c)))" by auto
    from w(2)[OF 12(1,2) p(1,2) 12(4) p(3), of t1] 12(5) show ?case by blast
  next
    case (13 ts t1 t2 w1 w2 x)
    then have p: "registryOK h" "\<not> panicked h"
      "'''' \<notin> set (otherParticipants (HGetAll (Hub.redis h) (''room:'' @ roomID))
                      (Client.UserID (heap h c)))" by auto
    from w(3)[OF 13(1,2) p(1,2) 13(4) p(3), of t2 t1] 13(5) show ?case by blast
  qed
qed


lemma hubABC_others:
  "otherParticipants (HGetAll (Hub.redis hubABC) (''room:'' @ ''r1'')) userA = [userB]"
  by (simp add: otherParticipants_def hubABC_participants)

lemma sortedAccepted_eq:
  "handleAcceptMatch_sorted rev 1 (acceptEvent ''r1'') hubABC =
     offer (toUser userB (partnerAccepted ''r1''))
       (hubABC\<lparr>Hub.redis := Expire (SAdd (Hub.redis hubABC) (acceptKey_sorted ''r1'') userA)
                   (acceptKey_sorted ''r1'') (5 * Minute)\<rparr>)"
  using hubABC_sorted_first[of rev] by simp

text \<open>
  The claim as stated does not hold of either copy. \<open>userA\<close> and \<open>userB\<close> are the participants
  of room \<^verbatim>\<open>r1\<close> and both are connected; the connection of \<open>userA\<close> accepts first. In the first
  copy \<open>userA\<close> is told to wait, nothing is put on the broadcast channel and the channel of
  \<open>userB\<close> is as before: the other participant is not notified. In the second copy \<open>userB\<close>
  is sent \<^verbatim>\<open>partner_accepted\<close>, and the channel of \<open>userA\<close> is as before, also after the worker
  has emptied the broadcast channel: the accepting user is not told to wait.
\<close>

theorem accept_first_one_side_only:
  "Client.UserID (heap hubABC 1) = userA \<and>
   HGetAll (Hub.redis hubABC) ''room:r1'' ''user1'' = Some userA \<and>
   HGetAll (Hub.redis hubABC) ''room:r1'' ''user2'' = Some userB \<and>
   map_of (clients hubABC) userA = Some 1 \<and> map_of (clients hubABC) userB = Some 3 \<and>
   send (heap hubABC 1) = [connected] \<and> send (heap hubABC 3) = [connected] \<and>
   broadcast hubABC = [] \<and>
   sets (Hub.redis hubABC) (acceptKey ''r1'') = [] \<and>
   sets (Hub.redis (handleAcceptMatch rev 1 (acceptEvent ''r1'') hubABC)) (acceptKey ''r1'') = [userA] \<and>
   send (heap (handleAcceptMatch rev 1 (acceptEvent ''r1'') hubABC) 1) =
     [connected, waitingForPartner] \<and>
   send (heap (handleAcceptMatch rev 1 (acceptEvent ''r1'') hubABC) 3) = [connected] \<and>
   broadcast (handleAcceptMatch rev 1 (acceptEvent ''r1'') hubABC) = [] \<and>
   sets (Hub.redis hubABC) (acceptKey_sorted ''r1'') = [] \<and>
   sets (Hub.redis (handleAcceptMatch_sorted rev 1 (acceptEvent ''r1'') hubABC))
     (acceptKey_sorted ''r1'') = [userA] \<and>
   send (heap (handleAcceptMatch_sorted rev 1 (acceptEvent ''r1'') hubABC) 1) = [connected] \<and>
   broadcast (handleAcceptMatch_sorted rev 1 (acceptEvent ''r1'') hubABC) =
     [toUser userB (partnerAccepted ''r1'')] \<and>
   send (heap (broadcastWorker 1 (handleAcceptMatch_sorted rev 1 (acceptEvent ''r1'') hubABC)) 3) =
     [connected, partnerAccepted ''r1''] \<and>
   send (heap (broadcastWorker 1 (handleAcceptMatch_sorted rev 1 (acceptEvent ''r1'') hubABC)) 1) =
     [connected] \<and>
   broadcast (broadcastWorker 1 (handleAcceptMatch_sorted rev 1 (acceptEvent ''r1'') hubABC)) = []"
proof -
  let ?h1 = "handleAcceptMatch rev 1 (acceptEvent ''r1'') hubABC"
  let ?h2 = "handleAcceptMatch_sorted rev 1 (acceptEvent ''r1'') hubABC"
  have h1: "?h1 = oneAccepted" by (simp add: oneAccepted_def handleAccept_def)
  have a1: "Client.UserID (heap hubABC 1) = userA" by (simp add: hubABC_UserID)
  have a2: "HGetAll (Hub.redis hubABC) ''room:r1'' ''user1'' = Some userA"
    "HGetAll (Hub.redis hubABC) ''room:r1'' ''user2'' = Some userB"
    by (simp_all add: hubABC_participants)
  have a3: "map_of (clients hubABC) userA = Some 1" "map_of (clients hubABC) userB = Some 3"
    by (simp_all add: hubABC_clients)
  have a4: "send (heap hubABC 1) = [connected]" "send (heap hubABC 3) = [connected]"
    "broadcast hubABC = []"
    by (simp_all add: hubABC_send hubABC_static)
  have a5: "sets (Hub.redis hubABC) (acceptKey ''r1'') = []"
    "sets (Hub.redis hubABC) (acceptKey_sorted ''r1'') = []"
    by (simp_all add: hubABC_sets)
  have b1: "sets (Hub.redis ?h1) (acceptKey ''r1'') = [userA]"
    "send (heap ?h1 1) = [connected, waitingForPartner]"
    "send (heap ?h1 3) = [connected]" "broadcast ?h1 = []"
    unfolding h1 by (simp_all add: oneAccepted_fields oneAccepted_send)
  have c1: "sets (Hub.redis ?h2) (acceptKey_sorted ''r1'') = [userA]"
    unfolding sortedAccepted_eq by (simp add: hubABC_sets)
  have c2: "send (heap ?h2 x) = send (heap hubABC x)" for x
    unfolding sortedAccepted_eq by simp
  have c3: "broadcast ?h2 = toUser userB (partnerAccepted ''r1'') # []"
    unfolding sortedAccepted_eq by (simp add: offer_broadcast hubABC_static broadcastBufferSize_def)
  have ok: "registryOK ?h2"
    using registryOK_hubABC unfolding sortedAccepted_eq by (simp add: registryOK_def)
  have np: "\<not> panicked ?h2" using hubABC_panicked unfolding sortedAccepted_eq by simp
  have cl: "clients ?h2 = clients hubABC" unfolding sortedAccepted_eq by simp
  have nb: "userB \<noteq> ''''" by simp
  note tw = toUser_worker[OF ok np nb c3, of 1]
  have d3: "send (heap (broadcastWorker 1 ?h2) 3) = [connected, partnerAccepted ''r1'']"
    using tw(1)[of 3] a3(2) a4(2) cl c2[of 3] by (simp add: clientBufferSize_def)
  have d1: "send (heap (broadcastWorker 1 ?h2) 1) = [connected]"
    using tw(1)[of 1] a3(2) a4(1) cl c2[of 1] by simp
  have d0: "broadcast (broadcastWorker 1 ?h2) = []" by (rule tw(2))
  have c21: "send (heap ?h2 1) = [connected]" using c2[of 1] a4(1) by simp
  have c3': "broadcast ?h2 = [toUser userB (partnerAccepted ''r1'')]" using c3 by simp
  from a1 a2 a3 a4 a5(1) b1 a5(2) c1 c21 c3' d3 d1 d0 show ?thesis by (intro conjI)
qed

theorem accept_first_notice_witness:
  "(\<forall>xs. length (rev xs) = length xs) \<and> ''r1'' \<noteq> '''' \<and>
   otherParticipants (HGetAll (Hub.redis hubABC) (''room:'' @ ''r1''))
     (Client.UserID (heap hubABC 1)) = [userB] \<and>
   length (sets (SAdd (Hub.redis hubABC) (acceptKey ''r1'') (Client.UserID (heap hubABC 1)))
             (acceptKey ''r1'')) = 1 \<and>
   \<not> panicked hubABC \<and> \<not> sendClosed (heap hubABC 1) \<and>
   length (send (heap hubABC 1)) < clientBufferSize \<and>
   send (heap (handleAcceptMatch rev 1 (acceptEvent ''r1'') hubABC) 1) =
     send (heap hubABC 1) @ [waitingForPartner] \<and>
   broadcast (handleAcceptMatch rev 1 (acceptEvent ''r1'') hubABC) = broadcast hubABC \<and>
   (3 :: addr) \<noteq> 1 \<and>
   heap (handleAcceptMatch rev 1 (acceptEvent ''r1'') hubABC) 3 = heap hubABC 3 \<and>
   length (sets (SAdd (Hub.redis hubABC) (acceptKey_sorted ''r1'') (Client.UserID (heap hubABC 1)))
             (acceptKey_sorted ''r1'')) = 1 \<and>
   length (broadcast hubABC) + 2 \<le> broadcastBufferSize \<and>
   registryOK hubABC \<and> '''' \<notin> set [userB] \<and>
   length ([] :: Time list) = length (broadcast hubABC) \<and>
   heap (handleAcceptMatch_sorted rev 1 (acceptEvent ''r1'') hubABC) = heap hubABC \<and>
   broadcast (handleAcceptMatch_sorted rev 1 (acceptEvent ''r1'') hubABC) =
     [toUser userB (partnerAccepted ''r1'')] \<and>
   map_of (clients hubABC) userB = Some 3 \<and>
   send (heap (broadcastWorker 1 (handleAcceptMatch_sorted rev 1 (acceptEvent ''r1'') hubABC)) 3) =
     [connected, partnerAccepted ''r1''] \<and>
   send (heap (broadcastWorker 1 (handleAcceptMatch_sorted rev 1 (acceptEvent ''r1'') hubABC)) 1) =
     [connected]"
proof -
  let ?h1 = "handleAcceptMatch rev 1 (acceptEvent ''r1'') hubABC"
  let ?h2 = "handleAcceptMatch_sorted rev 1 (acceptEvent ''r1'') hubABC"
  have perm: "\<forall>xs. length (rev xs) = length xs" by simp
  have ne: "''r1'' \<noteq> ''''" by simp
  have u: "Client.UserID (heap hubABC 1) = userA" by (simp add: hubABC_UserID)
  have o: "otherParticipants (HGetAll (Hub.redis hubABC) (''room:'' @ ''r1'')) userA = [userB]"
    by (rule hubABC_others)
  have one1: "length (sets (SAdd (Hub.redis hubABC) (acceptKey ''r1'') userA) (acceptKey ''r1'')) = 1"
    by (simp add: hubABC_sets)
  have one2: "length (sets (SAdd (Hub.redis hubABC) (acceptKey_sorted ''r1'') userA)
                 (acceptKey_sorted ''r1'')) = 1"
    by (simp add: hubABC_sets)
  have np: "\<not> panicked hubABC" by (rule hubABC_panicked)
  have op: "\<not> sendClosed (heap hubABC 1)" by (rule hubABC_open)
  have room: "length (send (heap hubABC 1)) < clientBufferSize"
    by (simp add: hubABC_send clientBufferSize_def)
  have n31: "(3 :: addr) \<noteq> 1" by simp
  have cap: "length (broadcast hubABC) + 2 \<le> broadcastBufferSize"
    by (simp add: hubABC_static broadcastBufferSize_def)
  have ok: "registryOK hubABC" by (rule registryOK_hubABC)
  have nonempty: "'''' \<notin> set [userB]" by simp
  have len: "length ([] :: Time list) = length (broadcast hubABC)" by (simp add: hubABC_static)
  have mB: "map_of (clients hubABC) userB = Some 3" by (simp add: hubABC_clients)
  note main = accept_first_notice[of rev "''r1''" hubABC 1, unfolded Let_def u o, rule_format,
      OF conjI[OF perm ne]]
  note first = main[THEN conjunct2, THEN conjunct1, rule_format, OF one1]
  have f1: "send (heap ?h1 1) = send (heap hubABC 1) @ [waitingForPartner]"
    using first[THEN conjunct2, THEN conjunct2, THEN conjunct2, THEN conjunct2, rule_format,
        OF conjI[OF np conjI[OF op room]]] .
  have f2: "broadcast ?h1 = broadcast hubABC"
    using first[THEN conjunct2, THEN conjunct1] .
  have f3: "heap ?h1 3 = heap hubABC 3"
    using first[THEN conjunct2, THEN conjunct2, THEN conjunct2, THEN conjunct1, rule_format,
        OF n31] .
  note second = main[THEN conjunct2, THEN conjunct2, rule_format, OF one2]
  have s1: "heap ?h2 = heap hubABC" using second[THEN conjunct2, THEN conjunct1] .
  note capped = second[THEN conjunct2, THEN conjunct2, THEN conjunct2, rule_format, OF cap]
  have s2: "broadcast ?h2 = [toUser userB (partnerAccepted ''r1'')]"
    using capped[THEN conjunct1] by (simp add: hubABC_static)
  note dl = capped[THEN conjunct2, rule_format, OF conjI[OF ok conjI[OF np nonempty]] len,
      of 1 2]
  note de = dl[THEN conjunct2, THEN conjunct1, rule_format, OF refl]
  have s3: "send (heap (broadcastWorker 1 ?h2) 3) = [connected, partnerAccepted ''r1'']"
    using de[of 3] mB s1 by (simp add: hubABC_send clientBufferSize_def)
  have s4: "send (heap (broadcastWorker 1 ?h2) 1) = [connected]"
    using de[of 1] mB s1 by (simp add: hubABC_send)
  from perm ne o one1 np op room f1 f2 n31 f3 one2 cap ok nonempty len s1 s2 mB s3 s4
  show ?thesis unfolding u by (intro conjI)
qed

end
